theory Spec2Isabelle
  imports Complex_Main
begin

section \<open>Data model\<close>

text \<open>
  The loan application keeps two collections in a document store: loans and their daily
  installments (EMIs).  A JavaScript \<open>Number\<close> that holds money is modelled as an exact
  rational (\<^typ>\<open>rat\<close>), so \<open>Math.ceil\<close> and \<open>Math.round\<close> are the mathematical
  ceiling and round-half-up.  Counters that the routes obtain through \<open>parseInt\<close>
  (\<open>amount\<close>, \<open>totalDays\<close>) and the loop counter \<open>dayNumber\<close> are integers.  A \<open>Date\<close> is its
  number of milliseconds, read in local time of a zone without daylight-saving changes, so
  that \<open>setHours(0,0,0,0)\<close> truncates to a multiple of one day and \<open>setDate(getDate() + k)\<close>
  adds \<open>k\<close> days.  An \<open>ObjectId\<close> is a natural number.
\<close>

type_synonym oid = nat

datatype emi_status = Pending | Paid | Overdue

datatype loan_status = LoanPending | Approved | Rejected | Completed

datatype autopay_status = AutopayNone | AutopayPending | AutopayActive | AutopayPaused | AutopayCancelled

text \<open>
  The payment reference stored in \<open>razorpayPaymentId\<close>: the gateway's payment id, or the
  strings \<open>sim_<ms>\<close> and \<open>admin_<userId>_<ms>\<close> built by the simulated and the admin
  route.
\<close>

datatype payment_ref = GatewayRef string | SimRef int | AdminRef oid int

record emi =
  emi_id :: oid
  loanId :: oid
  userId :: oid
  dayNumber :: int
  principalAmount :: rat
  interestAmount :: rat
  penaltyAmount :: rat
  totalAmount :: rat
  dueDate :: int
  status :: emi_status
  razorpayOrderId :: "string option"
  razorpayPaymentId :: "payment_ref option"
  paidAt :: "int option"

record loan =
  loan_id :: oid
  loanUserId :: oid
  amount :: int
  loanStatus :: loan_status
  totalDays :: int
  dailyEMI :: rat
  dailyInterest :: rat
  interestRate :: rat
  totalPaid :: rat
  remainingBalance :: rat
  loanPenaltyAmount :: rat
  approvedAt :: "int option"
  startDate :: "int option"
  endDate :: "int option"
  autopayEnabled :: bool
  razorpaySubscriptionId :: "string option"
  autopayStatus :: autopay_status

record db =
  emis :: "emi list"
  loans :: "loan list"

subsection \<open>Numbers and dates\<close>

definition Math_ceil :: "rat \<Rightarrow> int" where
  "Math_ceil x = \<lceil>x\<rceil>"

definition Math_round :: "rat \<Rightarrow> int" where
  "Math_round x = \<lfloor>x + 1 / 2\<rfloor>"

definition msPerDay :: int where
  "msPerDay = 24 * 60 * 60 * 1000"

definition setHours0 :: "int \<Rightarrow> int" where
  "setHours0 t = t - t mod msPerDay"

definition addDays :: "int \<Rightarrow> int \<Rightarrow> int" where
  "addDays t k = t + k * msPerDay"

subsection \<open>Store primitives\<close>

text \<open>
  \<open>_id\<close> is the unique key of a collection.  \<open>findById\<close> returns the document with the
  given id, \<open>save\<close> on a loaded document writes it back under its id, and
  \<open>findByIdAndUpdate\<close> with \<open>$inc\<close> adds to one field of the document with that id.
\<close>

definition EMI_findById :: "oid \<Rightarrow> db \<Rightarrow> emi option" where
  "EMI_findById i d = find (\<lambda>e. emi_id e = i) (emis d)"

definition Loan_findById :: "oid \<Rightarrow> db \<Rightarrow> loan option" where
  "Loan_findById i d = find (\<lambda>l. loan_id l = i) (loans d)"

definition EMI_save :: "emi \<Rightarrow> db \<Rightarrow> db" where
  "EMI_save e d = d\<lparr>emis := map (\<lambda>x. if emi_id x = emi_id e then e else x) (emis d)\<rparr>"

definition Loan_save :: "loan \<Rightarrow> db \<Rightarrow> db" where
  "Loan_save l d = d\<lparr>loans := map (\<lambda>x. if loan_id x = loan_id l then l else x) (loans d)\<rparr>"

definition Loan_incPenalty :: "oid \<Rightarrow> rat \<Rightarrow> db \<Rightarrow> db" where
  "Loan_incPenalty i delta d =
     d\<lparr>loans := map (\<lambda>x. if loan_id x = i
                          then x\<lparr>loanPenaltyAmount := loanPenaltyAmount x + delta\<rparr> else x)
                   (loans d)\<rparr>"

definition unpaidOf :: "oid \<Rightarrow> db \<Rightarrow> emi list" where
  "unpaidOf lid d = filter (\<lambda>e. loanId e = lid \<and> status e \<noteq> Paid) (emis d)"

definition countUnpaid :: "oid \<Rightarrow> db \<Rightarrow> nat" where
  "countUnpaid lid d = length (unpaidOf lid d)"

section \<open>Overdue processor\<close>

text \<open>
  \<open>processOverdueEMIs\<close> of the EMI calculator service: the query for late installments,
  then the loop over the documents it returned.  \<open>today\<close> is the start of the current day.
\<close>

definition lateEMIs :: "int \<Rightarrow> db \<Rightarrow> emi list" where
  "lateEMIs today d =
     filter (\<lambda>e. (status e = Pending \<or> status e = Overdue) \<and> dueDate e < today) (emis d)"

fun overdueLoop :: "int \<Rightarrow> emi list \<Rightarrow> db \<times> nat \<Rightarrow> db \<times> nat" where
  "overdueLoop today [] (d, processedCount) = (d, processedCount)"
| "overdueLoop today (e # rest) (d, processedCount) =
     (let oldPenalty = penaltyAmount e;
          e1 = e\<lparr>status := Overdue\<rparr>;
          diffTime = today - dueDate e1;
          daysOverdue = Math_round (of_int diffTime / of_int msPerDay)
      in if daysOverdue \<le> 0 then overdueLoop today rest (d, processedCount)
         else
           (let penaltyPerDay = interestAmount e1;
                newPenalty = penaltyPerDay * of_int daysOverdue
            in if newPenalty > oldPenalty then
                 (let delta = newPenalty - oldPenalty;
                      e2 = e1\<lparr>penaltyAmount := newPenalty,
                              totalAmount := principalAmount e1 + interestAmount e1 + newPenalty\<rparr>;
                      d1 = EMI_save e2 d;
                      d2 = Loan_incPenalty (loanId e2) delta d1
                  in overdueLoop today rest (d2, processedCount + 1))
               else overdueLoop today rest (d, processedCount)))"

definition processOverdueEMIs :: "int \<Rightarrow> db \<Rightarrow> nat \<times> db" where
  "processOverdueEMIs now d =
     (let today = setHours0 now
      in case overdueLoop today (lateEMIs today d) (d, 0) of (d', processedCount) \<Rightarrow> (processedCount, d'))"


text \<open>
  The superseded variant of the same function (flat fee of 120 per day, \<open>pending\<close>
  installments only, \<open>today\<close> set to 23:59:59.999, the loan incremented by the whole
  penalty).
\<close>

definition pendingLateEMIs :: "int \<Rightarrow> db \<Rightarrow> emi list" where
  "pendingLateEMIs today d = filter (\<lambda>e. status e = Pending \<and> dueDate e < today) (emis d)"

fun flatLoop :: "int \<Rightarrow> emi list \<Rightarrow> db \<Rightarrow> db" where
  "flatLoop today [] d = d"
| "flatLoop today (e # rest) d =
     (let e1 = e\<lparr>status := Overdue\<rparr>;
          baseAmount = principalAmount e1 + interestAmount e1;
          fl = \<lfloor>(of_int (today - dueDate e1) :: rat) / of_int msPerDay\<rfloor>;
          daysOverdue = (if fl = 0 then 1 else fl);
          penaltyPerDay = 120;
          e2 = e1\<lparr>penaltyAmount := penaltyPerDay * of_int daysOverdue\<rparr>;
          e3 = e2\<lparr>totalAmount := baseAmount + penaltyAmount e2\<rparr>;
          d1 = EMI_save e3 d;
          d2 = Loan_incPenalty (loanId e3) (penaltyAmount e3) d1
      in flatLoop today rest d2)"

definition processOverdueEMIs_flat :: "int \<Rightarrow> db \<Rightarrow> nat \<times> db" where
  "processOverdueEMIs_flat now d =
     (let today = setHours0 now + (msPerDay - 1);
          overdueEMIs = pendingLateEMIs today d
      in (length overdueEMIs, flatLoop today overdueEMIs d))"

section \<open>Schedule generator\<close>

text \<open>
  The \<open>pre('save')\<close> hook of the loan schema.  \<open>changed\<close> stands for
  \<open>this.isNew || this.isModified('amount') || this.isModified('totalDays')\<close>.
\<close>

definition Loan_preSave :: "bool \<Rightarrow> loan \<Rightarrow> loan" where
  "Loan_preSave changed l =
     (if changed then
        (let totalInterest = of_int (amount l) * (interestRate l / 100);
             dailyPrincipal = of_int (amount l) / of_int (totalDays l);
             dI = of_int (Math_ceil (totalInterest / of_int (totalDays l)))
         in l\<lparr>dailyInterest := dI,
              dailyEMI := of_int (Math_ceil (dailyPrincipal + dI)),
              remainingBalance := of_int (amount l) + totalInterest\<rparr>)
      else l)"

text \<open>
  \<open>generateEMISchedule\<close>.  \<open>newId day\<close> is the \<open>ObjectId\<close> that \<open>new EMI\<close> gives the
  installment of that day; \<open>changed\<close> is passed on to the hook run by \<open>loan.save()\<close>.
\<close>

definition generateEMISchedule ::
    "int \<Rightarrow> (int \<Rightarrow> oid) \<Rightarrow> bool \<Rightarrow> loan \<Rightarrow> db \<Rightarrow> emi list \<times> db" where
  "generateEMISchedule now newId changed lo d =
     (let start = setHours0 (addDays now 1);
          totalInterest = of_int (amount lo) * (20 / 100);
          dailyPrincipal = Math_ceil (of_int (amount lo) / of_int (totalDays lo));
          dailyInt = Math_ceil (totalInterest / of_int (totalDays lo));
          new = map (\<lambda>day.
                  \<lparr>emi_id = newId day, loanId = loan_id lo, userId = loanUserId lo,
                   dayNumber = day,
                   principalAmount = of_int dailyPrincipal,
                   interestAmount = of_int dailyInt,
                   penaltyAmount = 0,
                   totalAmount = of_int dailyPrincipal + of_int dailyInt,
                   dueDate = addDays start (day - 1),
                   status = Pending,
                   razorpayOrderId = None, razorpayPaymentId = None, paidAt = None\<rparr>)
                [1..totalDays lo];
          d1 = d\<lparr>emis := emis d @ new\<rparr>;
          lo1 = lo\<lparr>startDate := Some start,
                   endDate := Some (addDays start (totalDays lo - 1)),
                   approvedAt := Some now\<rparr>
      in (new, Loan_save (Loan_preSave changed lo1) d1))"

datatype response = Ok | Err nat string

text \<open>
  A numeric field of a request body: absent (\<open>== null\<close>), not parsable by \<open>parseInt\<close>, or
  the integer \<open>parseInt\<close> returns.
\<close>

datatype body_int = Absent | NotANumber | Num int

text \<open>
  \<open>POST /api/loan/apply\<close>, as far as the loan document goes: the amount is validated, a
  user has at most one pending application, and the new loan (100 days, schema defaults)
  is saved, which runs the hook with \<open>isNew\<close>.  \<open>newLoanId\<close> is the id of the new document.
\<close>

definition applyLoan :: "oid \<Rightarrow> oid \<Rightarrow> body_int \<Rightarrow> db \<Rightarrow> response \<times> db" where
  "applyLoan newLoanId uid amountB d =
     (case amountB of
        Num amountNum \<Rightarrow>
          if amountNum < 1000 \<or> amountNum > 100000
          then (Err 400 ''Loan amount must be between 1,000 and 1,00,000'', d)
          else if (\<exists>l\<in>set (loans d). loanUserId l = uid \<and> loanStatus l = LoanPending)
          then (Err 400 ''You already have a pending loan application'', d)
          else (Ok, d\<lparr>loans := loans d @
                  [Loan_preSave True
                     \<lparr>loan_id = newLoanId, loanUserId = uid, amount = amountNum,
                      loanStatus = LoanPending, totalDays = 100, dailyEMI = 0,
                      dailyInterest = 0, interestRate = 20, totalPaid = 0,
                      remainingBalance = 0, loanPenaltyAmount = 0, approvedAt = None,
                      startDate = None, endDate = None, autopayEnabled = False,
                      razorpaySubscriptionId = None, autopayStatus = AutopayNone\<rparr>]\<rparr>)
      | Absent \<Rightarrow> (Err 400 ''All fields are required'', d)
      | NotANumber \<Rightarrow> (Err 400 ''Loan amount must be between 1,000 and 1,00,000'', d))"

text \<open>\<open>PUT /api/admin/loans/:id/approve\<close>.\<close>

definition approve ::
    "int \<Rightarrow> (int \<Rightarrow> oid) \<Rightarrow> oid \<Rightarrow> body_int \<Rightarrow> body_int \<Rightarrow> db \<Rightarrow> response \<times> db" where
  "approve now newId lid amountB totalDaysB d =
     (case Loan_findById lid d of
        None \<Rightarrow> (Err 404 ''Loan not found'', d)
      | Some lo \<Rightarrow>
          if loanStatus lo \<noteq> LoanPending then (Err 400 ''Loan is not in pending status'', d)
          else if (case amountB of Absent \<Rightarrow> False | NotANumber \<Rightarrow> True
                   | Num amt \<Rightarrow> amt < 1000 \<or> amt > 100000)
          then (Err 400 ''Amount must be between 1,000 and 1,00,000'', d)
          else
            (let lo1 = (case amountB of Num amt \<Rightarrow> lo\<lparr>amount := amt\<rparr> | _ \<Rightarrow> lo)
             in if (case totalDaysB of Absent \<Rightarrow> False | NotANumber \<Rightarrow> True
                       | Num days \<Rightarrow> days < 1 \<or> days > 365)
                then (Err 400 ''Total days must be between 1 and 365'', d)
                else
                  (let lo2 = (case totalDaysB of Num days \<Rightarrow> lo1\<lparr>totalDays := days\<rparr> | _ \<Rightarrow> lo1);
                       lo3 = lo2\<lparr>loanStatus := Approved, interestRate := 20\<rparr>;
                       changed = (amount lo3 \<noteq> amount lo \<or> totalDays lo3 \<noteq> totalDays lo)
                   in (Ok, snd (generateEMISchedule now newId changed lo3 d)))))"


section \<open>Payment applier\<close>

text \<open>
  The five routes that settle installments.  A string field of a request body is falsy
  (\<open>!x\<close>) when it is absent or empty; both are the empty string here.  The HMAC-SHA256 of
  the \<open>crypto\<close> library, as a hex digest, is the parameter \<open>hmac\<close> (key first), and the
  secrets of the environment are parameters too.  Every clock read of one request returns
  \<open>now\<close>.  Notifications go to an external collaborator and are left out.
\<close>

text \<open>\<open>POST /api/payment/simulate\<close>; \<open>uid\<close> is \<open>req.user._id\<close>.\<close>

definition simulate :: "int \<Rightarrow> oid \<Rightarrow> oid option \<Rightarrow> db \<Rightarrow> response \<times> db" where
  "simulate now uid emiId d =
     (case emiId of
        None \<Rightarrow> (Err 400 ''EMI ID is required'', d)
      | Some i \<Rightarrow>
          (case EMI_findById i d of
             None \<Rightarrow> (Err 404 ''EMI not found'', d)
           | Some e \<Rightarrow>
               if userId e \<noteq> uid then (Err 403 ''Access denied'', d)
               else if status e = Paid then (Err 400 ''EMI is already paid'', d)
               else
                 (let e1 = e\<lparr>status := Paid, razorpayPaymentId := Some (SimRef now),
                            paidAt := Some now\<rparr>;
                      d1 = EMI_save e1 d
                  in case Loan_findById (loanId e1) d1 of
                       None \<Rightarrow> (Ok, d1)
                     | Some lo \<Rightarrow>
                         (let lo1 = lo\<lparr>totalPaid := totalPaid lo + totalAmount e1,
                                      remainingBalance := remainingBalance lo
                                         - (principalAmount e1 + interestAmount e1)\<rparr>;
                              pendingEMIs = countUnpaid (loan_id lo1) d1;
                              lo2 = (if pendingEMIs = 0 then lo1\<lparr>loanStatus := Completed\<rparr>
                                     else lo1)
                          in (Ok, Loan_save lo2 d1)))))"

text \<open>\<open>POST /api/payment/verify\<close>.\<close>

definition verify ::
    "(string \<Rightarrow> string \<Rightarrow> string) \<Rightarrow> string \<Rightarrow> int \<Rightarrow> string \<Rightarrow> string \<Rightarrow> string \<Rightarrow> oid option
      \<Rightarrow> db \<Rightarrow> response \<times> db" where
  "verify hmac keySecret now razorpay_order_id razorpay_payment_id razorpay_signature emiId d =
     (if razorpay_order_id = [] \<or> razorpay_payment_id = [] \<or> razorpay_signature = []
         \<or> emiId = None
      then (Err 400 ''Missing payment details'', d)
      else
        (let body = razorpay_order_id @ ''|'' @ razorpay_payment_id;
             expectedSignature = hmac keySecret body;
             isAuthentic = (expectedSignature = razorpay_signature)
         in if \<not> isAuthentic then (Err 400 ''Payment verification failed'', d)
            else
              (case EMI_findById (the emiId) d of
                 None \<Rightarrow> (Err 404 ''EMI not found'', d)
               | Some e \<Rightarrow>
                   (let e1 = e\<lparr>status := Paid,
                              razorpayPaymentId := Some (GatewayRef razorpay_payment_id),
                              paidAt := Some now\<rparr>;
                        d1 = EMI_save e1 d
                    in case Loan_findById (loanId e1) d1 of
                         None \<Rightarrow> (Ok, d1)
                       | Some lo \<Rightarrow>
                           (let lo1 = lo\<lparr>totalPaid := totalPaid lo + totalAmount e1,
                                        remainingBalance := remainingBalance lo
                                           - (principalAmount e1 + interestAmount e1)\<rparr>;
                                pendingEMIs = countUnpaid (loan_id lo1) d1;
                                lo2 = (if pendingEMIs = 0 then lo1\<lparr>loanStatus := Completed\<rparr>
                                       else lo1)
                            in (Ok, Loan_save lo2 d1))))))"

text \<open>\<open>PUT /api/admin/emis/:id/mark-paid\<close>; \<open>uid\<close> is the admin's \<open>req.user._id\<close>.\<close>

definition markPaid :: "int \<Rightarrow> oid \<Rightarrow> oid \<Rightarrow> db \<Rightarrow> response \<times> db" where
  "markPaid now uid i d =
     (case EMI_findById i d of
        None \<Rightarrow> (Err 404 ''EMI not found'', d)
      | Some e \<Rightarrow>
          if status e = Paid then (Err 400 ''EMI already paid'', d)
          else
            (let e1 = e\<lparr>status := Paid, paidAt := Some now,
                       razorpayPaymentId := Some (AdminRef uid now)\<rparr>;
                 d1 = EMI_save e1 d
             in case Loan_findById (loanId e1) d1 of
                  None \<Rightarrow> (Ok, d1)
                | Some lo \<Rightarrow>
                    (let lo1 = lo\<lparr>totalPaid := totalPaid lo + totalAmount e1,
                                 remainingBalance := remainingBalance lo
                                    - (principalAmount e1 + interestAmount e1)\<rparr>;
                         pendingCount = countUnpaid (loan_id lo1) d1;
                         lo2 = (if pendingCount = 0 then lo1\<lparr>loanStatus := Completed\<rparr>
                                else lo1)
                     in (Ok, Loan_save lo2 d1))))"

text \<open>
  The query \<open>EMI.find({loanId, status: {$ne: 'paid'}}).sort({dayNumber: 1}).limit(7)\<close> and
  the loop that marks a batch paid; the webhook and the autopay route run the same loop
  body on the loan document they hold.
\<close>

definition oldestUnpaid :: "oid \<Rightarrow> db \<Rightarrow> emi list" where
  "oldestUnpaid lid d = take 7 (sort_key dayNumber (unpaidOf lid d))"

fun payBatch :: "payment_ref \<Rightarrow> int \<Rightarrow> emi list \<Rightarrow> db \<times> loan \<Rightarrow> db \<times> loan" where
  "payBatch paymentId now [] (d, lo) = (d, lo)"
| "payBatch paymentId now (e # rest) (d, lo) =
     (let e1 = e\<lparr>status := Paid, razorpayPaymentId := Some paymentId, paidAt := Some now\<rparr>;
          d1 = EMI_save e1 d;
          lo1 = lo\<lparr>totalPaid := totalPaid lo + totalAmount e1,
                   remainingBalance := remainingBalance lo
                      - (principalAmount e1 + interestAmount e1)\<rparr>
      in payBatch paymentId now rest (d1, lo1))"

text \<open>\<open>POST /api/payment/verify-autopay\<close>.\<close>

definition verifyAutopay ::
    "(string \<Rightarrow> string \<Rightarrow> string) \<Rightarrow> string \<Rightarrow> int \<Rightarrow> string \<Rightarrow> string \<Rightarrow> string \<Rightarrow> oid option
      \<Rightarrow> db \<Rightarrow> response \<times> db" where
  "verifyAutopay hmac keySecret now razorpay_subscription_id razorpay_payment_id
      razorpay_signature loanIdB d =
     (if razorpay_subscription_id = [] \<or> razorpay_payment_id = [] \<or> razorpay_signature = []
         \<or> loanIdB = None
      then (Err 400 ''Missing autopay details'', d)
      else
        (let body = razorpay_payment_id @ ''|'' @ razorpay_subscription_id;
             expectedSignature = hmac keySecret body;
             isAuthentic = (expectedSignature = razorpay_signature)
         in if \<not> isAuthentic then (Err 400 ''Autopay verification failed'', d)
            else
              (case Loan_findById (the loanIdB) d of
                 None \<Rightarrow> (Err 404 ''Loan not found'', d)
               | Some lo \<Rightarrow>
                   (let lo1 = lo\<lparr>autopayEnabled := True, autopayStatus := AutopayActive\<rparr>;
                        d1 = Loan_save lo1 d;
                        firstBatch = oldestUnpaid (loan_id lo1) d1
                    in case payBatch (GatewayRef razorpay_payment_id) now firstBatch (d1, lo1) of
                         (d2, lo2) \<Rightarrow> (Ok, Loan_save lo2 d2)))))"

text \<open>
  The webhook.  \<open>JSON.parse\<close> is the parameter \<open>parse\<close> (\<open>None\<close> when it throws); of the
  payload the handlers read the event name, the subscription entity's \<open>notes.loanId\<close>
  and the payment entity's id.
\<close>

record payload =
  event :: string
  subscriptionEntity :: "oid option option"
  paymentEntity :: "string option"

definition handleSubscriptionCharged :: "int \<Rightarrow> payload \<Rightarrow> db \<Rightarrow> db" where
  "handleSubscriptionCharged now p d =
     (case (subscriptionEntity p, paymentEntity p) of
        (Some notesLoanId, Some paymentId) \<Rightarrow>
          (case notesLoanId of
             None \<Rightarrow> d
           | Some lid \<Rightarrow>
               (let pendingEmis = oldestUnpaid lid d
                in if length pendingEmis = 0 then d
                   else
                     (case Loan_findById lid d of
                        None \<Rightarrow> d
                      | Some lo \<Rightarrow>
                          (case payBatch (GatewayRef paymentId) now pendingEmis (d, lo) of
                             (d1, lo1) \<Rightarrow>
                               (let remainingPending = countUnpaid lid d1;
                                    lo2 = (if remainingPending = 0
                                           then lo1\<lparr>loanStatus := Completed\<rparr> else lo1)
                                in Loan_save lo2 d1)))))
      | _ \<Rightarrow> d)"

definition handleSubscriptionCancelled :: "payload \<Rightarrow> db \<Rightarrow> db" where
  "handleSubscriptionCancelled p d =
     (case subscriptionEntity p of
        Some (Some lid) \<Rightarrow>
          d\<lparr>loans := map (\<lambda>x. if loan_id x = lid
                               then x\<lparr>autopayEnabled := False, autopayStatus := AutopayCancelled\<rparr>
                               else x) (loans d)\<rparr>
      | _ \<Rightarrow> d)"

definition handleWebhookEvent :: "int \<Rightarrow> payload \<Rightarrow> db \<Rightarrow> db" where
  "handleWebhookEvent now p d =
     (if event p = ''subscription.charged'' then handleSubscriptionCharged now p d
      else if event p = ''subscription.cancelled'' then handleSubscriptionCancelled p d
      else d)"

text \<open>\<open>POST /api/webhooks/razorpay\<close>.\<close>

definition webhook ::
    "(string \<Rightarrow> string \<Rightarrow> string) \<Rightarrow> (string \<Rightarrow> payload option) \<Rightarrow> string \<Rightarrow> int \<Rightarrow> string
      \<Rightarrow> string \<Rightarrow> db \<Rightarrow> response \<times> db" where
  "webhook hmac parse webhookSecret now rawBody signature d =
     (if webhookSecret = [] then (Err 500 ''Webhook secret not configured'', d)
      else if signature = [] then (Err 400 ''Missing signature'', d)
      else
        (let expectedSignature = hmac webhookSecret rawBody
         in if expectedSignature \<noteq> signature then (Err 400 ''Invalid signature'', d)
            else
              (case parse rawBody of
                 None \<Rightarrow> (Err 500 ''Error'', d)
               | Some p \<Rightarrow> (Ok, handleWebhookEvent now p d))))"

section \<open>Notions used to state the properties\<close>

text \<open>
  What one pass of the loop of \<open>processOverdueEMIs\<close> computes for an installment, named
  so that the theorems can speak about it.
\<close>

definition daysOverdueOf :: "int \<Rightarrow> emi \<Rightarrow> int" where
  "daysOverdueOf today e = Math_round (of_int (today - dueDate e) / of_int msPerDay)"

definition newPenaltyOf :: "int \<Rightarrow> emi \<Rightarrow> rat" where
  "newPenaltyOf today e = interestAmount e * of_int (daysOverdueOf today e)"

definition penaltyApplies :: "int \<Rightarrow> emi \<Rightarrow> bool" where
  "penaltyApplies today e \<longleftrightarrow> 0 < daysOverdueOf today e \<and> penaltyAmount e < newPenaltyOf today e"

definition sweptEMI :: "int \<Rightarrow> emi \<Rightarrow> emi" where
  "sweptEMI today e =
     e\<lparr>status := Overdue, penaltyAmount := newPenaltyOf today e,
       totalAmount := principalAmount e + interestAmount e + newPenaltyOf today e\<rparr>"

definition isLate :: "int \<Rightarrow> emi \<Rightarrow> bool" where
  "isLate today e \<longleftrightarrow> (status e = Pending \<or> status e = Overdue) \<and> dueDate e < today"

definition sweep1 :: "int \<Rightarrow> emi \<Rightarrow> emi" where
  "sweep1 today e = (if isLate today e \<and> penaltyApplies today e then sweptEMI today e else e)"

definition penaltyDelta :: "int \<Rightarrow> emi list \<Rightarrow> oid \<Rightarrow> rat" where
  "penaltyDelta today es lid =
     sum_list (map (\<lambda>e. newPenaltyOf today e - penaltyAmount e)
                   (filter (\<lambda>e. loanId e = lid \<and> penaltyApplies today e) es))"

definition penaltySum :: "oid \<Rightarrow> db \<Rightarrow> rat" where
  "penaltySum lid d = sum_list (map penaltyAmount (filter (\<lambda>e. loanId e = lid) (emis d)))"

text \<open>
  An installment that carries the penalty of \<open>k\<close> days: as generation (\<open>k = 0\<close>, pending) or a
  sweep \<open>k\<close> days after its due date (overdue) left it.
\<close>

definition accruedFor :: "int \<Rightarrow> emi \<Rightarrow> bool" where
  "accruedFor k e \<longleftrightarrow>
     0 < interestAmount e \<and> 0 \<le> k
     \<and> penaltyAmount e = interestAmount e * of_int k
     \<and> totalAmount e = principalAmount e + interestAmount e + penaltyAmount e
     \<and> (status e = Overdue \<longleftrightarrow> 0 < k)"

text \<open>What the superseded flat-rate variant writes to a pending installment past its due date.\<close>

definition flatSwept :: "int \<Rightarrow> emi \<Rightarrow> emi" where
  "flatSwept today e =
     (let fl = \<lfloor>(of_int (today - dueDate e) :: rat) / of_int msPerDay\<rfloor>;
          days = (if fl = 0 then 1 else fl)
      in e\<lparr>status := Overdue, penaltyAmount := 120 * of_int days,
            totalAmount := principalAmount e + interestAmount e + 120 * of_int days\<rparr>)"

text \<open>
  An example store: a loan of 1000 over 3 days, approved at time 0, so that its installments
  (334 principal and 67 interest each, both rounded up) fall due on days 1 to 3.
\<close>

definition exEmi :: "oid \<Rightarrow> int \<Rightarrow> emi_status \<Rightarrow> rat \<Rightarrow> emi" where
  "exEmi i day st pen =
     \<lparr>emi_id = i, loanId = 1, userId = 5, dayNumber = day, principalAmount = 334,
      interestAmount = 67, penaltyAmount = pen, totalAmount = 401 + pen,
      dueDate = day * 86400000,
      status = st, razorpayOrderId = None, razorpayPaymentId = None, paidAt = None\<rparr>"

definition exLoan :: "loan" where
  "exLoan = \<lparr>loan_id = 1, loanUserId = 5, amount = 1000, loanStatus = Approved, totalDays = 3,
      dailyEMI = 401, dailyInterest = 67, interestRate = 20, totalPaid = 0,
      remainingBalance = 1200, loanPenaltyAmount = 0, approvedAt = Some 0,
      startDate = Some 86400000, endDate = Some 259200000, autopayEnabled = False,
      razorpaySubscriptionId = None, autopayStatus = AutopayNone\<rparr>"

definition exDb :: db where
  "exDb = \<lparr>emis = [exEmi 10 1 Pending 0, exEmi 11 2 Pending 0, exEmi 12 3 Pending 0],
           loans = [exLoan]\<rparr>"

text \<open>
  The same loan as applied for (100 days by default), before the admin approved it over 3
  days, and the ids the driver gives the three installments.
\<close>

definition exPending :: loan where
  "exPending = \<lparr>loan_id = 1, loanUserId = 5, amount = 1000, loanStatus = LoanPending,
      totalDays = 100, dailyEMI = 12, dailyInterest = 2, interestRate = 20, totalPaid = 0,
      remainingBalance = 1200, loanPenaltyAmount = 0, approvedAt = None,
      startDate = None, endDate = None, autopayEnabled = False,
      razorpaySubscriptionId = None, autopayStatus = AutopayNone\<rparr>"

definition exApplied :: db where
  "exApplied = \<lparr>emis = [], loans = [exPending]\<rparr>"

definition exNewId :: "int \<Rightarrow> oid" where
  "exNewId day = nat (9 + day)"

text \<open>The example store after a sweep on day 3.\<close>

definition exDb3 :: db where
  "exDb3 = \<lparr>emis = [exEmi 10 1 Overdue 134, exEmi 11 2 Overdue 67, exEmi 12 3 Pending 0],
            loans = [exLoan\<lparr>loanPenaltyAmount := 201\<rparr>]\<rparr>"

text \<open>
  Stand-ins for the HMAC and the JSON parser in the examples: any functions do, since the
  routes only compare the digest with the supplied signature.
\<close>

definition exHmac :: "string \<Rightarrow> string \<Rightarrow> string" where
  "exHmac key body = ''mac('' @ key @ '','' @ body @ '')''"

definition exParse :: "string \<Rightarrow> payload option" where
  "exParse body =
     (if body = ''charged'' then Some \<lparr>event = ''subscription.charged'',
          subscriptionEntity = Some (Some 1), paymentEntity = Some ''pay_2''\<rparr>
      else None)"

text \<open>
  The sum of principal and interest over the paid installments of a loan, the quantity
  that the remaining balance is meant to track.
\<close>

definition paidDue :: "oid \<Rightarrow> db \<Rightarrow> rat" where
  "paidDue lid d =
     sum_list (map (\<lambda>e. principalAmount e + interestAmount e)
                   (filter (\<lambda>e. loanId e = lid \<and> status e = Paid) (emis d)))"

text \<open>The example store after installment 10 was settled through the gateway at time 100.\<close>

definition exPaid :: "oid \<Rightarrow> int \<Rightarrow> string \<Rightarrow> int \<Rightarrow> emi" where
  "exPaid i day pid t =
     (exEmi i day Paid 0)\<lparr>razorpayPaymentId := Some (GatewayRef pid), paidAt := Some t\<rparr>"

definition exDbPaid :: db where
  "exDbPaid = \<lparr>emis = [exPaid 10 1 ''pay_1'' 100, exEmi 11 2 Pending 0, exEmi 12 3 Pending 0],
               loans = [exLoan\<lparr>totalPaid := 401, remainingBalance := 799\<rparr>]\<rparr>"

text \<open>An installment as the settlement routes save it.\<close>

definition paidEMI :: "payment_ref \<Rightarrow> int \<Rightarrow> emi \<Rightarrow> emi" where
  "paidEMI r now e = e\<lparr>status := Paid, razorpayPaymentId := Some r, paidAt := Some now\<rparr>"

text \<open>
  The example application approved over 10 days (ten installments of 100 + 20), and the
  payload of a \<open>subscription.charged\<close> event for it.
\<close>

definition exDb10 :: db where
  "exDb10 = snd (approve 0 exNewId 1 Absent (Num 10) exApplied)"

definition exCharged :: payload where
  "exCharged = \<lparr>event = ''subscription.charged'', subscriptionEntity = Some (Some 1),
                paymentEntity = Some ''pay_2''\<rparr>"

text \<open>
  The life of a ledger after approval: settlement requests through the five entry points
  and overdue sweeps, in any order.  The gateway's functions and secrets are fixed for a
  run.
\<close>

datatype ledger_event =
    Simulate int oid "oid option"
  | Verify int string string string "oid option"
  | MarkPaid int oid oid
  | VerifyAutopay int string string string "oid option"
  | Webhook int string string
  | Sweep int

fun step ::
    "(string \<Rightarrow> string \<Rightarrow> string) \<Rightarrow> (string \<Rightarrow> payload option) \<Rightarrow> string \<Rightarrow> string
      \<Rightarrow> ledger_event \<Rightarrow> db \<Rightarrow> db" where
  "step hmac parse keySecret webhookSecret (Simulate now uid emiId) d =
     snd (simulate now uid emiId d)"
| "step hmac parse keySecret webhookSecret (Verify now order_id payment_id signature emiId) d =
     snd (verify hmac keySecret now order_id payment_id signature emiId d)"
| "step hmac parse keySecret webhookSecret (MarkPaid now uid i) d =
     snd (markPaid now uid i d)"
| "step hmac parse keySecret webhookSecret (VerifyAutopay now subscription_id payment_id signature lid) d =
     snd (verifyAutopay hmac keySecret now subscription_id payment_id signature lid d)"
| "step hmac parse keySecret webhookSecret (Webhook now rawBody signature) d =
     snd (webhook hmac parse webhookSecret now rawBody signature d)"
| "step hmac parse keySecret webhookSecret (Sweep now) d =
     snd (processOverdueEMIs now d)"

fun run ::
    "(string \<Rightarrow> string \<Rightarrow> string) \<Rightarrow> (string \<Rightarrow> payload option) \<Rightarrow> string \<Rightarrow> string
      \<Rightarrow> ledger_event list \<Rightarrow> db \<Rightarrow> db" where
  "run hmac parse keySecret webhookSecret [] d = d"
| "run hmac parse keySecret webhookSecret (ev # evs) d =
     run hmac parse keySecret webhookSecret evs (step hmac parse keySecret webhookSecret ev d)"

text \<open>
  A run in which \<open>verify\<close>, the one route without a check of the status, is never asked to
  settle an installment that is already paid.
\<close>

fun settlesUnpaid :: "ledger_event \<Rightarrow> db \<Rightarrow> bool" where
  "settlesUnpaid (Verify now order_id payment_id signature (Some i)) d =
     (case EMI_findById i d of None \<Rightarrow> True | Some e \<Rightarrow> status e \<noteq> Paid)"
| "settlesUnpaid ev d = True"

fun settlesUnpaidRun ::
    "(string \<Rightarrow> string \<Rightarrow> string) \<Rightarrow> (string \<Rightarrow> payload option) \<Rightarrow> string \<Rightarrow> string
      \<Rightarrow> ledger_event list \<Rightarrow> db \<Rightarrow> bool" where
  "settlesUnpaidRun hmac parse keySecret webhookSecret [] d = True"
| "settlesUnpaidRun hmac parse keySecret webhookSecret (ev # evs) d =
     (settlesUnpaid ev d
      \<and> settlesUnpaidRun hmac parse keySecret webhookSecret evs
            (step hmac parse keySecret webhookSecret ev d))"

text \<open>
  The clock of the sweeps along a run: the start of the day of the latest sweep, and the
  runs in which it never goes back.
\<close>

fun sweepClock :: "int \<Rightarrow> ledger_event \<Rightarrow> int" where
  "sweepClock T (Sweep now) = setHours0 now"
| "sweepClock T ev = T"

fun clockAdvances :: "int \<Rightarrow> ledger_event list \<Rightarrow> bool" where
  "clockAdvances T [] = True"
| "clockAdvances T (ev # evs) = (T \<le> sweepClock T ev \<and> clockAdvances (sweepClock T ev) evs)"

fun lastSweep :: "int \<Rightarrow> ledger_event list \<Rightarrow> int" where
  "lastSweep T [] = T"
| "lastSweep T (ev # evs) = lastSweep (sweepClock T ev) evs"

text \<open>
  Every unpaid installment of the loan carries the penalty of the days it was overdue at
  the start of day \<open>T\<close>.
\<close>

definition accruedInv :: "oid \<Rightarrow> int \<Rightarrow> db \<Rightarrow> bool" where
  "accruedInv lid T d \<longleftrightarrow>
     (\<forall>e\<in>set (emis d). loanId e = lid \<and> status e \<noteq> Paid
        \<longrightarrow> accruedFor (max 0 (daysOverdueOf T e)) e)"

text \<open>Sums over the installments of one loan.\<close>

definition totalSum :: "oid \<Rightarrow> db \<Rightarrow> rat" where
  "totalSum lid d = sum_list (map totalAmount (filter (\<lambda>e. loanId e = lid) (emis d)))"

text \<open>
  The state of a loan of amount \<open>A\<close> over \<open>N\<close> days and of its installments that generation
  establishes and every settlement and sweep keeps: ids are unique, the loan has exactly
  \<open>N\<close> installments, each with the rounded-up daily principal and interest and a total
  that includes its penalty, and the loan's penalty is the sum of theirs.
\<close>

definition ledgerInv :: "oid \<Rightarrow> int \<Rightarrow> int \<Rightarrow> db \<Rightarrow> bool" where
  "ledgerInv lid A N d \<longleftrightarrow>
     distinct (map emi_id (emis d)) \<and> distinct (map loan_id (loans d))
     \<and> length (filter (\<lambda>e. loanId e = lid) (emis d)) = nat N
     \<and> (\<forall>e\<in>set (emis d). loanId e = lid \<longrightarrow>
           principalAmount e = of_int \<lceil>(of_int A :: rat) / of_int N\<rceil>
         \<and> interestAmount e = of_int \<lceil>(of_int A * 20 / 100 :: rat) / of_int N\<rceil>
         \<and> totalAmount e = principalAmount e + interestAmount e + penaltyAmount e)
     \<and> (\<exists>lo. Loan_findById lid d = Some lo \<and> amount lo = A \<and> totalDays lo = N
            \<and> interestRate lo = 20 \<and> loanPenaltyAmount lo = penaltySum lid d)"

definition balanceInv :: "oid \<Rightarrow> db \<Rightarrow> bool" where
  "balanceInv lid d \<longleftrightarrow>
     (\<exists>lo. Loan_findById lid d = Some lo
        \<and> remainingBalance lo
            = of_int (amount lo) + of_int (amount lo) * (interestRate lo / 100) - paidDue lid d)"

text \<open>
  A pending application as \<open>applyLoan\<close> leaves it: nothing paid, no penalty, the balance
  set by the hook, and no installment yet.
\<close>

definition pendingApplication :: "oid \<Rightarrow> db \<Rightarrow> bool" where
  "pendingApplication lid d \<longleftrightarrow>
     (\<exists>lo. Loan_findById lid d = Some lo \<and> loanStatus lo = LoanPending
        \<and> interestRate lo = 20 \<and> loanPenaltyAmount lo = 0
        \<and> remainingBalance lo = of_int (amount lo) + of_int (amount lo) * (interestRate lo / 100))
     \<and> (\<forall>e\<in>set (emis d). loanId e \<noteq> lid)"

text \<open>
  The common shape of what a settlement request does to the store: the installments of a
  batch, all of loan \<open>L\<close>, are saved as paid and nothing else changes among the
  installments; among the loans only loan \<open>L\<close> loses the batch's principal and interest
  from its balance, and no loan's terms or penalty change.
\<close>

definition settled :: "oid \<Rightarrow> emi list \<Rightarrow> payment_ref \<Rightarrow> int \<Rightarrow> db \<Rightarrow> db \<Rightarrow> bool" where
  "settled L batch r now d d' \<longleftrightarrow>
     set batch \<subseteq> set (emis d) \<and> distinct (map emi_id batch) \<and> (\<forall>b\<in>set batch. loanId b = L)
     \<and> emis d' = map (\<lambda>x. if x \<in> set batch then paidEMI r now x else x) (emis d)
     \<and> (\<exists>g. loans d' = map g (loans d)
          \<and> (\<forall>l\<in>set (loans d). loan_id (g l) = loan_id l \<and> amount (g l) = amount l
                \<and> totalDays (g l) = totalDays l \<and> interestRate (g l) = interestRate l
                \<and> loanPenaltyAmount (g l) = loanPenaltyAmount l
                \<and> (loan_id l = L \<longrightarrow> remainingBalance (g l) = remainingBalance l
                       - (\<Sum>b\<leftarrow>batch. principalAmount b + interestAmount b))
                \<and> (loan_id l \<noteq> L \<longrightarrow> remainingBalance (g l) = remainingBalance l)))"

text \<open>
  The code that the three single-installment routes share after saving the installment:
  the update of the loan's totals and the completion check.
\<close>

definition settleTail :: "emi \<Rightarrow> db \<Rightarrow> db" where
  "settleTail e1 d1 =
     (case Loan_findById (loanId e1) d1 of
        None \<Rightarrow> d1
      | Some lo \<Rightarrow>
          Loan_save
            (if countUnpaid (loan_id lo) d1 = 0
             then lo\<lparr>totalPaid := totalPaid lo + totalAmount e1,
                     remainingBalance := remainingBalance lo
                        - (principalAmount e1 + interestAmount e1),
                     loanStatus := Completed\<rparr>
             else lo\<lparr>totalPaid := totalPaid lo + totalAmount e1,
                     remainingBalance := remainingBalance lo
                        - (principalAmount e1 + interestAmount e1)\<rparr>) d1)"

text \<open>A rational that is a whole number.\<close>

definition whole :: "rat \<Rightarrow> bool" where
  "whole x \<longleftrightarrow> of_int \<lfloor>x\<rfloor> = x"

text \<open>
  Example runs: on the 3-day loan a sweep on day 3, a simulated and a gateway payment, a
  sweep on day 4 and a subscription charge; and a loan of 1001 over 2 days with both
  installments paid.
\<close>

definition exRun :: "ledger_event list" where
  "exRun = [Sweep 259200000, Simulate 259200100 5 (Some 10),
            Verify 259200200 ''order_1'' ''pay_1'' (exHmac ''secret'' ''order_1|pay_1'') (Some 11),
            Sweep 345600000,
            Webhook 345600100 ''charged'' (exHmac ''whsecret'' ''charged'')]"

definition exDb1001 :: db where
  "exDb1001 = snd (approve 0 exNewId 1 Absent (Num 2)
                    (snd (applyLoan 1 5 (Num 1001) \<lparr>emis = [], loans = []\<rparr>)))"

definition exRun1001 :: "ledger_event list" where
  "exRun1001 = [Simulate 100 5 (Some 10), Simulate 200 5 (Some 11)]"

definition exFinal :: loan where
  "exFinal = exLoan\<lparr>loanStatus := Completed, totalPaid := 1471, remainingBalance := - 3,
                     loanPenaltyAmount := 268\<rparr>"

section \<open>Overdue processor: what one sweep does\<close>

lemma overdueLoop_Cons:
  "overdueLoop today (e # rest) (d, c) =
     (if penaltyApplies today e
      then overdueLoop today rest
             (Loan_incPenalty (loanId e) (newPenaltyOf today e - penaltyAmount e)
                (EMI_save (sweptEMI today e) d), c + 1)
      else overdueLoop today rest (d, c))"
  by (auto simp: Let_def penaltyApplies_def newPenaltyOf_def daysOverdueOf_def sweptEMI_def)

declare overdueLoop.simps(2) [simp del]

lemma sweptEMI_id [simp]: "emi_id (sweptEMI today e) = emi_id e"
  by (simp add: sweptEMI_def)

lemma distinct_key_eq:
  "distinct (map f xs) \<Longrightarrow> x \<in> set xs \<Longrightarrow> y \<in> set xs \<Longrightarrow> f x = f y \<Longrightarrow> x = y"
  by (meson distinct_map inj_onD)

lemma overdueLoop_char:
  assumes "distinct (map emi_id (emis d))" and "set es \<subseteq> set (emis d)"
    and "distinct (map emi_id es)"
  shows "overdueLoop today es (d, c) =
     (d\<lparr>emis := map (\<lambda>x. if emi_id x \<in> emi_id ` set es \<and> penaltyApplies today x
                          then sweptEMI today x else x) (emis d),
        loans := map (\<lambda>l. l\<lparr>loanPenaltyAmount :=
                               loanPenaltyAmount l + penaltyDelta today es (loan_id l)\<rparr>) (loans d)\<rparr>,
      c + length (filter (penaltyApplies today) es))"
  using assms
proof (induction es arbitrary: d c)
  case Nil
  show ?case by (simp add: penaltyDelta_def)
next
  case (Cons e rest)
  have e_in: "e \<in> set (emis d)" and rest_in: "set rest \<subseteq> set (emis d)"
    and e_notin: "emi_id e \<notin> emi_id ` set rest" and rest_dist: "distinct (map emi_id rest)"
    using Cons.prems by auto
  have same: "\<And>x. x \<in> set (emis d) \<Longrightarrow> emi_id x = emi_id e \<Longrightarrow> x = e"
    using distinct_key_eq[OF Cons.prems(1) _ e_in] by blast
  show ?case
  proof (cases "penaltyApplies today e")
    case False
    have "overdueLoop today (e # rest) (d, c) = overdueLoop today rest (d, c)"
      using False by (simp only: overdueLoop_Cons if_False)
    also have "\<dots> = (d\<lparr>emis := map (\<lambda>x. if emi_id x \<in> emi_id ` set rest \<and> penaltyApplies today x
                          then sweptEMI today x else x) (emis d),
        loans := map (\<lambda>l. l\<lparr>loanPenaltyAmount :=
                               loanPenaltyAmount l + penaltyDelta today rest (loan_id l)\<rparr>) (loans d)\<rparr>,
      c + length (filter (penaltyApplies today) rest))"
      by (rule Cons.IH[OF Cons.prems(1) rest_in rest_dist])
    also have "map (\<lambda>x. if emi_id x \<in> emi_id ` set rest \<and> penaltyApplies today x
                          then sweptEMI today x else x) (emis d)
        = map (\<lambda>x. if emi_id x \<in> emi_id ` set (e # rest) \<and> penaltyApplies today x
                          then sweptEMI today x else x) (emis d)"
      using False same by (intro map_cong) auto
    finally show ?thesis using False by (simp add: penaltyDelta_def)
  next
    case True
    define e2 where "e2 = sweptEMI today e"
    define d1 where "d1 = EMI_save e2 d"
    define d2 where "d2 = Loan_incPenalty (loanId e) (newPenaltyOf today e - penaltyAmount e) d1"
    have id2: "emi_id e2 = emi_id e" by (simp add: e2_def sweptEMI_def)
    have emis2: "emis d2 = map (\<lambda>x. if emi_id x = emi_id e then e2 else x) (emis d)"
      by (simp add: d2_def d1_def Loan_incPenalty_def EMI_save_def id2)
    have loans2: "loans d2 = map (\<lambda>x. if loan_id x = loanId e
                          then x\<lparr>loanPenaltyAmount := loanPenaltyAmount x + (newPenaltyOf today e - penaltyAmount e)\<rparr> else x) (loans d)"
      by (simp add: d2_def d1_def Loan_incPenalty_def EMI_save_def)
    have ids2: "map emi_id (emis d2) = map emi_id (emis d)"
      by (simp add: emis2 id2 o_def cong: map_cong)
    have dist2: "distinct (map emi_id (emis d2))" using Cons.prems(1) ids2 by simp
    have rest2: "set rest \<subseteq> set (emis d2)"
    proof
      fix r assume r: "r \<in> set rest"
      have "r \<in> set (emis d)" using r rest_in by blast
      moreover have "emi_id r \<noteq> emi_id e" using r e_notin by (metis imageI)
      ultimately
      show "r \<in> set (emis d2)" unfolding emis2 by (auto simp: image_iff intro!: bexI[of _ r])
    qed
    have "overdueLoop today (e # rest) (d, c) = overdueLoop today rest (d2, c + 1)"
      using True by (simp only: overdueLoop_Cons if_True d2_def d1_def e2_def)
    also have "\<dots> = (d2\<lparr>emis := map (\<lambda>x. if emi_id x \<in> emi_id ` set rest \<and> penaltyApplies today x
                          then sweptEMI today x else x) (emis d2),
        loans := map (\<lambda>l. l\<lparr>loanPenaltyAmount :=
                               loanPenaltyAmount l + penaltyDelta today rest (loan_id l)\<rparr>) (loans d2)\<rparr>,
      c + 1 + length (filter (penaltyApplies today) rest))"
      by (rule Cons.IH[OF dist2 rest2 rest_dist])
    also have "map (\<lambda>x. if emi_id x \<in> emi_id ` set rest \<and> penaltyApplies today x
                          then sweptEMI today x else x) (emis d2)
        = map (\<lambda>x. if emi_id x \<in> emi_id ` set (e # rest) \<and> penaltyApplies today x
                          then sweptEMI today x else x) (emis d)"
      unfolding emis2 map_map
      using True same e_notin by (intro map_cong) (auto simp: e2_def)
    also have "map (\<lambda>l. l\<lparr>loanPenaltyAmount :=
                               loanPenaltyAmount l + penaltyDelta today rest (loan_id l)\<rparr>) (loans d2)
        = map (\<lambda>l. l\<lparr>loanPenaltyAmount :=
                               loanPenaltyAmount l + penaltyDelta today (e # rest) (loan_id l)\<rparr>) (loans d)"
      unfolding loans2 map_map
      using True by (intro map_cong) (auto simp: penaltyDelta_def)
    finally show ?thesis
      using True by (simp add: d2_def d1_def Loan_incPenalty_def EMI_save_def)
  qed
qed


lemma sweptEMI_simps [simp]:
  "dueDate (sweptEMI today e) = dueDate e"
  "interestAmount (sweptEMI today e) = interestAmount e"
  "principalAmount (sweptEMI today e) = principalAmount e"
  "loanId (sweptEMI today e) = loanId e"
  "status (sweptEMI today e) = Overdue"
  "penaltyAmount (sweptEMI today e) = newPenaltyOf today e"
  by (simp_all add: sweptEMI_def)

lemma newPenaltyOf_swept [simp]: "newPenaltyOf today (sweptEMI today' e) = newPenaltyOf today e"
  by (simp add: newPenaltyOf_def daysOverdueOf_def)

lemma lateEMIs_filter: "lateEMIs today d = filter (isLate today) (emis d)"
  by (simp add: lateEMIs_def isLate_def [abs_def])

lemma overdueLoop_lateEMIs:
  assumes "distinct (map emi_id (emis d))"
  shows "overdueLoop today (lateEMIs today d) (d, 0) =
     (d\<lparr>emis := map (sweep1 today) (emis d),
        loans := map (\<lambda>l. l\<lparr>loanPenaltyAmount :=
                   loanPenaltyAmount l + penaltyDelta today (lateEMIs today d) (loan_id l)\<rparr>) (loans d)\<rparr>,
      length (filter (penaltyApplies today) (lateEMIs today d)))"
proof -
  have sub: "set (lateEMIs today d) \<subseteq> set (emis d)"
    by (simp add: lateEMIs_filter)
  have dist: "distinct (map emi_id (lateEMIs today d))"
    using assms by (simp add: lateEMIs_filter distinct_map_filter)
  have "map (\<lambda>x. if emi_id x \<in> emi_id ` set (lateEMIs today d) \<and> penaltyApplies today x
                  then sweptEMI today x else x) (emis d) = map (sweep1 today) (emis d)"
  proof (intro map_cong refl)
    fix x assume x: "x \<in> set (emis d)"
    have "emi_id x \<in> emi_id ` set (lateEMIs today d) \<longleftrightarrow> isLate today x"
    proof
      assume "emi_id x \<in> emi_id ` set (lateEMIs today d)"
      then obtain y where y: "y \<in> set (emis d)" "isLate today y" "emi_id x = emi_id y"
        by (auto simp: lateEMIs_filter)
      then have "x = y" using distinct_key_eq[OF assms x] by blast
      then show "isLate today x" using y by simp
    next
      assume "isLate today x"
      then show "emi_id x \<in> emi_id ` set (lateEMIs today d)"
        using x by (auto simp: lateEMIs_filter)
    qed
    then show "(if emi_id x \<in> emi_id ` set (lateEMIs today d) \<and> penaltyApplies today x
                then sweptEMI today x else x) = sweep1 today x"
      by (simp add: sweep1_def)
  qed
  then show ?thesis
    using overdueLoop_char[OF assms sub dist, of today 0] by simp
qed

lemma overdueLoop_noop:
  "\<forall>e\<in>set es. \<not> penaltyApplies today e \<Longrightarrow> overdueLoop today es (d, c) = (d, c)"
  by (induction es) (simp_all add: overdueLoop_Cons del: overdueLoop.simps(2))

lemma sweep1_settled: "\<not> penaltyApplies today (sweep1 today x) \<or> \<not> isLate today (sweep1 today x)"
  by (auto simp: sweep1_def penaltyApplies_def)

lemma processOverdueEMIs_eq:
  "processOverdueEMIs now d =
     (snd (overdueLoop (setHours0 now) (lateEMIs (setHours0 now) d) (d, 0)),
      fst (overdueLoop (setHours0 now) (lateEMIs (setHours0 now) d) (d, 0)))"
  by (simp add: processOverdueEMIs_def Let_def split: prod.splits)

lemma flatSwept_simps [simp]:
  "emi_id (flatSwept today e) = emi_id e"
  "status (flatSwept today e) = Overdue"
  "dueDate (flatSwept today e) = dueDate e"
  by (simp_all add: flatSwept_def Let_def)

lemma flatLoop_Cons:
  "flatLoop today (e # rest) d =
     flatLoop today rest
       (Loan_incPenalty (loanId e) (penaltyAmount (flatSwept today e))
          (EMI_save (flatSwept today e) d))"
  by (simp add: Let_def flatSwept_def)

declare flatLoop.simps(2) [simp del]

lemma flatLoop_emis:
  assumes "distinct (map emi_id (emis d))" and "set es \<subseteq> set (emis d)"
    and "distinct (map emi_id es)"
  shows "emis (flatLoop today es d) =
           map (\<lambda>x. if x \<in> set es then flatSwept today x else x) (emis d)"
  using assms
proof (induction es arbitrary: d)
  case Nil
  show ?case by simp
next
  case (Cons e rest)
  have e_in: "e \<in> set (emis d)" and rest_in: "set rest \<subseteq> set (emis d)"
    and e_notin: "emi_id e \<notin> emi_id ` set rest" and rest_dist: "distinct (map emi_id rest)"
    using Cons.prems by auto
  have same: "\<And>x. x \<in> set (emis d) \<Longrightarrow> emi_id x = emi_id e \<Longrightarrow> x = e"
    using distinct_key_eq[OF Cons.prems(1) _ e_in] by blast
  define d1 where "d1 = Loan_incPenalty (loanId e) (penaltyAmount (flatSwept today e))
          (EMI_save (flatSwept today e) d)"
  have emis1: "emis d1 = map (\<lambda>x. if emi_id x = emi_id e then flatSwept today e else x) (emis d)"
    by (simp add: d1_def EMI_save_def Loan_incPenalty_def)
  have ids1: "map emi_id (emis d1) = map emi_id (emis d)"
    by (simp add: emis1 o_def cong: map_cong)
  have dist1: "distinct (map emi_id (emis d1))" using Cons.prems(1) ids1 by simp
  have rest1: "set rest \<subseteq> set (emis d1)"
  proof
    fix x assume x: "x \<in> set rest"
    have "x \<in> set (emis d)" using x rest_in by blast
    moreover have "emi_id x \<noteq> emi_id e" using x e_notin by (metis imageI)
    ultimately show "x \<in> set (emis d1)"
      unfolding emis1 by (auto simp: image_iff intro!: bexI[of _ x])
  qed
  have "emis (flatLoop today (e # rest) d) =
        map (\<lambda>x. if x \<in> set rest then flatSwept today x else x) (emis d1)"
    unfolding flatLoop_Cons d1_def[symmetric] by (rule Cons.IH[OF dist1 rest1 rest_dist])
  also have "\<dots> = map (\<lambda>x. if x \<in> set (e # rest) then flatSwept today x else x) (emis d)"
    unfolding emis1 map_map
  proof (intro map_cong refl)
    fix x assume x: "x \<in> set (emis d)"
    show "((\<lambda>x. if x \<in> set rest then flatSwept today x else x) \<circ>
            (\<lambda>x. if emi_id x = emi_id e then flatSwept today e else x)) x
          = (if x \<in> set (e # rest) then flatSwept today x else x)"
    proof (cases "emi_id x = emi_id e")
      case True
      then have xe: "x = e" using same x by blast
      have "flatSwept today e \<notin> set rest" using e_notin by (metis imageI flatSwept_simps(1))
      then show ?thesis using xe by simp
    next
      case False
      then have "x \<noteq> e" by blast
      then show ?thesis using False by simp
    qed
  qed
  finally show ?case .
qed

lemma processOverdueEMIs_flat_again:
  assumes "distinct (map emi_id (emis d))"
  shows "processOverdueEMIs_flat now (snd (processOverdueEMIs_flat now d))
           = (0, snd (processOverdueEMIs_flat now d))"
proof -
  define today where "today = setHours0 now + (msPerDay - 1)"
  define es where "es = pendingLateEMIs today d"
  define d1 where "d1 = flatLoop today es d"
  have sub: "set es \<subseteq> set (emis d)" by (auto simp: es_def pendingLateEMIs_def)
  have dist: "distinct (map emi_id es)"
    using assms by (simp add: es_def pendingLateEMIs_def distinct_map_filter)
  have emis1: "emis d1 = map (\<lambda>x. if x \<in> set es then flatSwept today x else x) (emis d)"
    unfolding d1_def by (rule flatLoop_emis[OF assms sub dist])
  have "pendingLateEMIs today d1 = []"
    unfolding pendingLateEMIs_def emis1
    by (auto simp: filter_empty_conv es_def pendingLateEMIs_def)
  moreover have "snd (processOverdueEMIs_flat now d) = d1"
    by (simp add: processOverdueEMIs_flat_def Let_def today_def es_def d1_def)
  ultimately show ?thesis
    by (simp add: processOverdueEMIs_flat_def Let_def today_def[symmetric])
qed

text \<open>
  Claim C5.  Running the overdue sweep twice with no time elapsed leaves the ledger
  unchanged on the second run: the store returned by the second run is the store it was
  given (no installment and no loan changes), and the count it returns is 0.  The same
  holds of the superseded flat-rate variant, which only looks at pending installments and
  leaves every one it touches overdue.
\<close>

theorem processOverdueEMIs_idempotent:
  assumes "distinct (map emi_id (emis d))"
  shows "processOverdueEMIs now (snd (processOverdueEMIs now d))
           = (0, snd (processOverdueEMIs now d))
       \<and> processOverdueEMIs_flat now (snd (processOverdueEMIs_flat now d))
           = (0, snd (processOverdueEMIs_flat now d))"
proof -
  define today where "today = setHours0 now"
  define d1 where "d1 = snd (processOverdueEMIs now d)"
  have emis1: "emis d1 = map (sweep1 today) (emis d)"
    by (simp add: d1_def processOverdueEMIs_eq overdueLoop_lateEMIs[OF assms] today_def)
  have "\<forall>e\<in>set (lateEMIs today d1). \<not> penaltyApplies today e"
    using sweep1_settled by (auto simp: lateEMIs_filter emis1)
  then have "overdueLoop today (lateEMIs today d1) (d1, 0) = (d1, 0)"
    by (rule overdueLoop_noop)
  then have "processOverdueEMIs now d1 = (0, d1)"
    by (simp add: processOverdueEMIs_eq today_def)
  then have "processOverdueEMIs now (snd (processOverdueEMIs now d))
           = (0, snd (processOverdueEMIs now d))" by (simp only: d1_def)
  then show ?thesis using processOverdueEMIs_flat_again[OF assms] by blast
qed

theorem processOverdueEMIs_idempotent_witness:
  "distinct (map emi_id (emis exDb))
   \<and> processOverdueEMIs 259200000 exDb = (2, exDb3)
   \<and> processOverdueEMIs 259200000 exDb3 = (0, exDb3)
   \<and> fst (processOverdueEMIs_flat 259200000 exDb) = 3
   \<and> processOverdueEMIs_flat 259200000 (snd (processOverdueEMIs_flat 259200000 exDb))
       = (0, snd (processOverdueEMIs_flat 259200000 exDb))"
proof -
  have h: "distinct (map emi_id (emis exDb))" by code_simp
  have r: "processOverdueEMIs 259200000 exDb = (2, exDb3)" by code_simp
  have f: "fst (processOverdueEMIs_flat 259200000 exDb) = 3" by code_simp
  from processOverdueEMIs_idempotent[OF h, of 259200000]
  have a: "processOverdueEMIs 259200000 (snd (processOverdueEMIs 259200000 exDb))
             = (0, snd (processOverdueEMIs 259200000 exDb))"
    and b: "processOverdueEMIs_flat 259200000 (snd (processOverdueEMIs_flat 259200000 exDb))
             = (0, snd (processOverdueEMIs_flat 259200000 exDb))" by blast+
  from a have a': "processOverdueEMIs 259200000 exDb3 = (0, exDb3)" by (simp only: r snd_conv)
  from h r a' f b show ?thesis by (intro conjI)
qed

lemma sweep1_loanId [simp]: "loanId (sweep1 today x) = loanId x"
  by (simp add: sweep1_def)

lemma sweep1_emi_id [simp]: "emi_id (sweep1 today x) = emi_id x"
  by (simp add: sweep1_def)

lemma penaltyDelta_as_difference:
  "penaltyDelta today (filter (isLate today) xs) lid =
     sum_list (map penaltyAmount (filter (\<lambda>e. loanId e = lid) (map (sweep1 today) xs)))
     - sum_list (map penaltyAmount (filter (\<lambda>e. loanId e = lid) xs))"
  by (induction xs) (auto simp: penaltyDelta_def sweep1_def)

lemma find_map_key:
  assumes "distinct (map k xs)" and "x \<in> set xs" and "\<And>y. k (f y) = k y"
  shows "find (\<lambda>y. k y = k x) (map f xs) = Some (f x)"
  using assms
proof (induction xs)
  case Nil
  then show ?case by simp
next
  case (Cons a xs)
  then show ?case by (cases "a = x") (auto simp: image_iff)
qed

text \<open>
  Claim C4.  For an unpaid installment whose due date is before the start of the current
  day, at least one day overdue: one sweep sets its penalty to interest times days
  overdue, recomputes the total and sets the status to overdue, when that new penalty
  exceeds the stored one, and saves nothing otherwise.  An installment that is as
  generation or an earlier sweep left it (\<open>accruedFor\<close>, for no more days than it is
  overdue now) therefore always has penalty interest times days overdue, the recomputed
  total and status overdue after the sweep.  Every loan's penalty grows by exactly the
  sum of the increases of its installments' penalties (the deltas), never by the new
  values.
\<close>

theorem processOverdueEMIs_penalty:
  assumes "distinct (map emi_id (emis d))" and "distinct (map loan_id (loans d))"
    and "e \<in> set (emis d)" and "status e = Pending \<or> status e = Overdue"
    and "dueDate e < setHours0 now"
    and "daysOverdue = Math_round (of_int (setHours0 now - dueDate e) / of_int msPerDay)"
    and "1 \<le> daysOverdue"
    and "newPenalty = interestAmount e * of_int daysOverdue"
    and "d' = snd (processOverdueEMIs now d)"
  shows "EMI_findById (emi_id e) d' =
           Some (if penaltyAmount e < newPenalty
                 then e\<lparr>status := Overdue, penaltyAmount := newPenalty,
                        totalAmount := principalAmount e + interestAmount e + newPenalty\<rparr>
                 else e)
       \<and> (\<forall>k. accruedFor k e \<and> k \<le> daysOverdue \<longrightarrow>
             EMI_findById (emi_id e) d' =
               Some (e\<lparr>status := Overdue, penaltyAmount := newPenalty,
                       totalAmount := principalAmount e + interestAmount e + newPenalty\<rparr>))
       \<and> (\<forall>l\<in>set (loans d). Loan_findById (loan_id l) d' =
             Some (l\<lparr>loanPenaltyAmount := loanPenaltyAmount l
                        + (penaltySum (loan_id l) d' - penaltySum (loan_id l) d)\<rparr>))"
proof -
  define today where "today = setHours0 now"
  have run: "d' = d\<lparr>emis := map (sweep1 today) (emis d),
        loans := map (\<lambda>l. l\<lparr>loanPenaltyAmount :=
                   loanPenaltyAmount l + penaltyDelta today (lateEMIs today d) (loan_id l)\<rparr>) (loans d)\<rparr>"
    by (simp add: assms(9) processOverdueEMIs_eq overdueLoop_lateEMIs[OF assms(1)] today_def)
  have late: "isLate today e" using assms(4,5) by (simp add: isLate_def today_def)
  have days: "daysOverdueOf today e = daysOverdue"
    by (simp add: daysOverdueOf_def assms(6) today_def)
  have new: "newPenaltyOf today e = newPenalty"
    by (simp add: newPenaltyOf_def days assms(8))
  have sw: "sweep1 today e = (if penaltyAmount e < newPenalty
                 then e\<lparr>status := Overdue, penaltyAmount := newPenalty,
                        totalAmount := principalAmount e + interestAmount e + newPenalty\<rparr>
                 else e)"
    using late assms(7) by (simp add: sweep1_def penaltyApplies_def days new sweptEMI_def)
  have "EMI_findById (emi_id e) d' = Some (sweep1 today e)"
    unfolding EMI_findById_def run using find_map_key[OF assms(1,3), of "sweep1 today"] by simp
  then have A: "EMI_findById (emi_id e) d' =
           Some (if penaltyAmount e < newPenalty
                 then e\<lparr>status := Overdue, penaltyAmount := newPenalty,
                        totalAmount := principalAmount e + interestAmount e + newPenalty\<rparr>
                 else e)" by (simp only: sw)
  have C: "\<forall>k. accruedFor k e \<and> k \<le> daysOverdue \<longrightarrow>
             EMI_findById (emi_id e) d' =
               Some (e\<lparr>status := Overdue, penaltyAmount := newPenalty,
                       totalAmount := principalAmount e + interestAmount e + newPenalty\<rparr>)"
  proof (intro allI impI)
    fix k assume k: "accruedFor k e \<and> k \<le> daysOverdue"
    then have i0: "0 < interestAmount e" and pen: "penaltyAmount e = interestAmount e * of_int k"
      and tot: "totalAmount e = principalAmount e + interestAmount e + penaltyAmount e"
      and st: "status e = Overdue \<longleftrightarrow> 0 < k" and kd: "k \<le> daysOverdue"
      by (simp_all add: accruedFor_def)
    show "EMI_findById (emi_id e) d' =
               Some (e\<lparr>status := Overdue, penaltyAmount := newPenalty,
                       totalAmount := principalAmount e + interestAmount e + newPenalty\<rparr>)"
    proof (cases "k < daysOverdue")
      case True
      then have "penaltyAmount e < newPenalty" using i0 by (simp add: pen assms(8))
      then show ?thesis using A by simp
    next
      case False
      then have eq: "k = daysOverdue" using kd by simp
      have p: "penaltyAmount e = newPenalty" by (simp add: pen eq assms(8))
      have s: "status e = Overdue" using st eq assms(7) by simp
      have "e\<lparr>status := Overdue, penaltyAmount := newPenalty,
              totalAmount := principalAmount e + interestAmount e + newPenalty\<rparr> = e"
        using p s tot by (cases e) simp
      then show ?thesis using A p by simp
    qed
  qed
  have delta: "\<And>lid. penaltyDelta today (lateEMIs today d) lid = penaltySum lid d' - penaltySum lid d"
    by (simp add: lateEMIs_filter penaltyDelta_as_difference penaltySum_def run)
  have B: "\<forall>l\<in>set (loans d). Loan_findById (loan_id l) d' =
             Some (l\<lparr>loanPenaltyAmount := loanPenaltyAmount l
                        + (penaltySum (loan_id l) d' - penaltySum (loan_id l) d)\<rparr>)"
  proof
    fix l assume l: "l \<in> set (loans d)"
    have "Loan_findById (loan_id l) d' = Some (l\<lparr>loanPenaltyAmount :=
                   loanPenaltyAmount l + penaltyDelta today (lateEMIs today d) (loan_id l)\<rparr>)"
      unfolding Loan_findById_def
      using find_map_key[OF assms(2) l, of "\<lambda>l. l\<lparr>loanPenaltyAmount :=
                   loanPenaltyAmount l + penaltyDelta today (lateEMIs today d) (loan_id l)\<rparr>"]
      by (simp add: run)
    then show "Loan_findById (loan_id l) d' =
             Some (l\<lparr>loanPenaltyAmount := loanPenaltyAmount l
                        + (penaltySum (loan_id l) d' - penaltySum (loan_id l) d)\<rparr>)"
      by (simp only: delta)
  qed
  from A C B show ?thesis by blast
qed


lemma exDb3_reached: "snd (processOverdueEMIs 259200000 exDb) = exDb3"
  by code_simp

theorem processOverdueEMIs_penalty_witness:
  "accruedFor 2 (exEmi 10 1 Overdue 134)
   \<and> EMI_findById 10 (snd (processOverdueEMIs 345600000 exDb3)) = Some (exEmi 10 1 Overdue 201)
   \<and> Loan_findById 1 (snd (processOverdueEMIs 345600000 exDb3))
       = Some (exLoan\<lparr>loanPenaltyAmount := 402\<rparr>)"
proof -
  have h: "distinct (map emi_id (emis exDb3))" "distinct (map loan_id (loans exDb3))"
      "exEmi 10 1 Overdue 134 \<in> set (emis exDb3)"
      "status (exEmi 10 1 Overdue 134) = Pending \<or> status (exEmi 10 1 Overdue 134) = Overdue"
      "dueDate (exEmi 10 1 Overdue 134) < setHours0 345600000"
      "(3::int) = Math_round (of_int (setHours0 345600000 - dueDate (exEmi 10 1 Overdue 134))
                    / of_int msPerDay)"
      "(1::int) \<le> 3"
      "(201::rat) = interestAmount (exEmi 10 1 Overdue 134) * of_int 3"
    by code_simp+
  have l: "exLoan\<lparr>loanPenaltyAmount := 201\<rparr> \<in> set (loans exDb3)"
    by code_simp
  have acc: "accruedFor 2 (exEmi 10 1 Overdue 134)" by code_simp
  have e: "emi_id (exEmi 10 1 Overdue 134) = 10" "loan_id (exLoan\<lparr>loanPenaltyAmount := 201\<rparr>) = 1"
      "(exEmi 10 1 Overdue 134)\<lparr>status := Overdue, penaltyAmount := 201,
               totalAmount := principalAmount (exEmi 10 1 Overdue 134)
                  + interestAmount (exEmi 10 1 Overdue 134) + 201\<rparr> = exEmi 10 1 Overdue 201"
      "(exLoan\<lparr>loanPenaltyAmount := 201\<rparr>)\<lparr>loanPenaltyAmount :=
          loanPenaltyAmount (exLoan\<lparr>loanPenaltyAmount := 201\<rparr>)
          + (penaltySum 1 (snd (processOverdueEMIs 345600000 exDb3)) - penaltySum 1 exDb3)\<rparr>
        = exLoan\<lparr>loanPenaltyAmount := 402\<rparr>"
    by code_simp+
  from processOverdueEMIs_penalty[OF h refl]
  have a: "\<forall>k. accruedFor k (exEmi 10 1 Overdue 134) \<and> k \<le> 3 \<longrightarrow>
           EMI_findById (emi_id (exEmi 10 1 Overdue 134)) (snd (processOverdueEMIs 345600000 exDb3)) =
           Some ((exEmi 10 1 Overdue 134)\<lparr>status := Overdue, penaltyAmount := 201,
               totalAmount := principalAmount (exEmi 10 1 Overdue 134)
                  + interestAmount (exEmi 10 1 Overdue 134) + 201\<rparr>)"
    and b: "\<forall>l\<in>set (loans exDb3). Loan_findById (loan_id l) (snd (processOverdueEMIs 345600000 exDb3)) =
             Some (l\<lparr>loanPenaltyAmount := loanPenaltyAmount l
                        + (penaltySum (loan_id l) (snd (processOverdueEMIs 345600000 exDb3)) - penaltySum (loan_id l) exDb3)\<rparr>)"
    by blast+
  have "accruedFor 2 (exEmi 10 1 Overdue 134) \<and> (2::int) \<le> 3" using acc by simp
  with a have "EMI_findById (emi_id (exEmi 10 1 Overdue 134)) (snd (processOverdueEMIs 345600000 exDb3)) =
           Some ((exEmi 10 1 Overdue 134)\<lparr>status := Overdue, penaltyAmount := 201,
               totalAmount := principalAmount (exEmi 10 1 Overdue 134)
                  + interestAmount (exEmi 10 1 Overdue 134) + 201\<rparr>)" by blast
  then have a': "EMI_findById 10 (snd (processOverdueEMIs 345600000 exDb3)) = Some (exEmi 10 1 Overdue 201)"
    by (simp only: e)
  from bspec[OF b l] have b': "Loan_findById 1 (snd (processOverdueEMIs 345600000 exDb3))
       = Some (exLoan\<lparr>loanPenaltyAmount := 402\<rparr>)"
    by (simp only: e)
  from acc a' b' show ?thesis by blast
qed

section \<open>Signature check\<close>

text \<open>
  Claim C9.  On the three gateway-sourced entry points the HMAC of the caller's canonical
  string is recomputed with the shared secret and compared with the supplied signature
  before anything is written: whenever the two differ the request is answered with an
  error and the store is returned as it was.
\<close>

theorem signature_mismatch_rejected:
  "(razorpay_signature \<noteq> hmac keySecret (razorpay_order_id @ ''|'' @ razorpay_payment_id) \<longrightarrow>
      snd (verify hmac keySecret now razorpay_order_id razorpay_payment_id razorpay_signature emiId d) = d
      \<and> fst (verify hmac keySecret now razorpay_order_id razorpay_payment_id razorpay_signature emiId d)
          \<in> {Err 400 ''Missing payment details'', Err 400 ''Payment verification failed''})
   \<and> (razorpay_signature \<noteq> hmac keySecret (razorpay_payment_id @ ''|'' @ razorpay_subscription_id) \<longrightarrow>
      snd (verifyAutopay hmac keySecret now razorpay_subscription_id razorpay_payment_id
             razorpay_signature loanIdB d) = d
      \<and> fst (verifyAutopay hmac keySecret now razorpay_subscription_id razorpay_payment_id
             razorpay_signature loanIdB d)
          \<in> {Err 400 ''Missing autopay details'', Err 400 ''Autopay verification failed''})
   \<and> (signature \<noteq> hmac webhookSecret rawBody \<longrightarrow>
      snd (webhook hmac parse webhookSecret now rawBody signature d) = d
      \<and> fst (webhook hmac parse webhookSecret now rawBody signature d)
          \<in> {Err 500 ''Webhook secret not configured'', Err 400 ''Missing signature'',
              Err 400 ''Invalid signature''})"
  by (auto simp: verify_def verifyAutopay_def webhook_def Let_def)

theorem signature_mismatch_rejected_witness:
  "''forged'' \<noteq> exHmac ''secret'' (''order_1'' @ ''|'' @ ''pay_1'')
   \<and> snd (verify exHmac ''secret'' 100 ''order_1'' ''pay_1'' ''forged'' (Some 10) exDb) = exDb
   \<and> fst (verify exHmac ''secret'' 100 ''order_1'' ''pay_1'' ''forged'' (Some 10) exDb)
        \<in> {Err 400 ''Missing payment details'', Err 400 ''Payment verification failed''}
   \<and> ''forged'' \<noteq> exHmac ''secret'' (''pay_1'' @ ''|'' @ ''sub_1'')
   \<and> snd (verifyAutopay exHmac ''secret'' 100 ''sub_1'' ''pay_1'' ''forged'' (Some 1) exDb) = exDb
   \<and> fst (verifyAutopay exHmac ''secret'' 100 ''sub_1'' ''pay_1'' ''forged'' (Some 1) exDb)
        \<in> {Err 400 ''Missing autopay details'', Err 400 ''Autopay verification failed''}
   \<and> ''forged'' \<noteq> exHmac ''whsecret'' ''charged''
   \<and> snd (webhook exHmac exParse ''whsecret'' 100 ''charged'' ''forged'' exDb) = exDb
   \<and> fst (webhook exHmac exParse ''whsecret'' 100 ''charged'' ''forged'' exDb)
        \<in> {Err 500 ''Webhook secret not configured'', Err 400 ''Missing signature'',
            Err 400 ''Invalid signature''}
   \<and> fst (webhook exHmac exParse ''whsecret'' 100 ''charged'' (exHmac ''whsecret'' ''charged'') exDb) = Ok
   \<and> snd (webhook exHmac exParse ''whsecret'' 100 ''charged'' (exHmac ''whsecret'' ''charged'') exDb) \<noteq> exDb"
proof -
  have h: "''forged'' \<noteq> exHmac ''secret'' (''order_1'' @ ''|'' @ ''pay_1'')"
     "''forged'' \<noteq> exHmac ''secret'' (''pay_1'' @ ''|'' @ ''sub_1'')"
     "''forged'' \<noteq> exHmac ''whsecret'' ''charged''"
    by (simp_all add: exHmac_def)
  have e: "fst (webhook exHmac exParse ''whsecret'' 100 ''charged'' (exHmac ''whsecret'' ''charged'') exDb) = Ok"
     "snd (webhook exHmac exParse ''whsecret'' 100 ''charged'' (exHmac ''whsecret'' ''charged'') exDb) \<noteq> exDb"
    by code_simp+
  note t = signature_mismatch_rejected[of "''forged''" exHmac "''secret''" "''order_1''" "''pay_1''"
      100 "Some 10" exDb "''sub_1''" "Some 1" "''forged''" "''whsecret''" "''charged''" exParse]
  from t h have r:
    "snd (verify exHmac ''secret'' 100 ''order_1'' ''pay_1'' ''forged'' (Some 10) exDb) = exDb"
    "fst (verify exHmac ''secret'' 100 ''order_1'' ''pay_1'' ''forged'' (Some 10) exDb)
        \<in> {Err 400 ''Missing payment details'', Err 400 ''Payment verification failed''}"
    "snd (verifyAutopay exHmac ''secret'' 100 ''sub_1'' ''pay_1'' ''forged'' (Some 1) exDb) = exDb"
    "fst (verifyAutopay exHmac ''secret'' 100 ''sub_1'' ''pay_1'' ''forged'' (Some 1) exDb)
        \<in> {Err 400 ''Missing autopay details'', Err 400 ''Autopay verification failed''}"
    "snd (webhook exHmac exParse ''whsecret'' 100 ''charged'' ''forged'' exDb) = exDb"
    "fst (webhook exHmac exParse ''whsecret'' 100 ''charged'' ''forged'' exDb)
        \<in> {Err 500 ''Webhook secret not configured'', Err 400 ''Missing signature'',
            Err 400 ''Invalid signature''}"
    by blast+
  from r h e show ?thesis by (intro conjI)
qed

section \<open>Settlement of an installment that is already paid\<close>

text \<open>
  Claim C1.  A settlement request for an installment that is already paid must change
  nothing.  The simulated and the admin route refuse it, but \<open>POST /api/payment/verify\<close>
  has no such check: a second delivery of the same verified payment for installment 10
  overwrites its \<open>paidAt\<close> and adds its amount to the loan's \<open>totalPaid\<close> (401 to 802) and
  takes it off \<open>remainingBalance\<close> (799 to 398) a second time.
\<close>

theorem verify_settles_paid_installment_again:
  "verify exHmac ''secret'' 100 ''order_1'' ''pay_1'' (exHmac ''secret'' ''order_1|pay_1'') (Some 10) exDb
     = (Ok, exDbPaid)
   \<and> verify exHmac ''secret'' 200 ''order_1'' ''pay_1'' (exHmac ''secret'' ''order_1|pay_1'') (Some 10) exDbPaid
     = (Ok, \<lparr>emis = [exPaid 10 1 ''pay_1'' 200, exEmi 11 2 Pending 0, exEmi 12 3 Pending 0],
              loans = [exLoan\<lparr>totalPaid := 802, remainingBalance := 398\<rparr>]\<rparr>)
   \<and> simulate 200 5 (Some 10) exDbPaid = (Err 400 ''EMI is already paid'', exDbPaid)
   \<and> markPaid 200 9 10 exDbPaid = (Err 400 ''EMI already paid'', exDbPaid)"
  by code_simp

text \<open>
  Claim C7.  Each settlement adds the installment's total to \<open>totalPaid\<close> and takes
  principal plus interest off \<open>remainingBalance\<close>, so the balance should always be
  amount plus total interest minus principal and interest of the paid installments.
  After the repeated \<open>verify\<close> above the balance is 398, while that difference is 799.
\<close>

theorem remainingBalance_drifts_after_repeated_verify:
  "map remainingBalance
     (loans (snd (verify exHmac ''secret'' 200 ''order_1'' ''pay_1''
                    (exHmac ''secret'' ''order_1|pay_1'') (Some 10) exDbPaid))) = [398]
   \<and> of_int (amount exLoan) + of_int (amount exLoan) * (interestRate exLoan / 100)
       - paidDue 1 (snd (verify exHmac ''secret'' 200 ''order_1'' ''pay_1''
                    (exHmac ''secret'' ''order_1|pay_1'') (Some 10) exDbPaid)) = 799"
  by code_simp

section \<open>Completion of a loan\<close>

text \<open>
  Claim C6.  A loan is completed exactly when none of its installments is unpaid, after
  every settlement operation.  Autopay activation (\<open>POST /api/payment/verify-autopay\<close>)
  settles the oldest unpaid installments but never looks at how many remain: on the
  example loan with three unpaid installments it pays all three and leaves the loan
  \<open>approved\<close>, where the webhook's batch settlement of the same store completes it.
\<close>

theorem verifyAutopay_leaves_loan_approved:
  "countUnpaid 1 exDb = 3
   \<and> fst (verifyAutopay exHmac ''secret'' 100 ''sub_1'' ''pay_1'' (exHmac ''secret'' ''pay_1|sub_1'') (Some 1) exDb) = Ok
   \<and> countUnpaid 1 (snd (verifyAutopay exHmac ''secret'' 100 ''sub_1'' ''pay_1''
                            (exHmac ''secret'' ''pay_1|sub_1'') (Some 1) exDb)) = 0
   \<and> map loanStatus (loans (snd (verifyAutopay exHmac ''secret'' 100 ''sub_1'' ''pay_1''
                            (exHmac ''secret'' ''pay_1|sub_1'') (Some 1) exDb))) = [Approved]
   \<and> countUnpaid 1 (snd (webhook exHmac exParse ''whsecret'' 100 ''charged''
                            (exHmac ''whsecret'' ''charged'') exDb)) = 0
   \<and> map loanStatus (loans (snd (webhook exHmac exParse ''whsecret'' 100 ''charged''
                            (exHmac ''whsecret'' ''charged'') exDb))) = [Completed]"
  by code_simp

section \<open>Schedule generation\<close>

lemma find_Loan_save:
  "Loan_findById (loan_id l) d = Some l0 \<Longrightarrow> Loan_findById (loan_id l) (Loan_save l d) = Some l"
proof -
  have "find (\<lambda>x. loan_id x = loan_id l) xs = Some l0 \<Longrightarrow>
        find (\<lambda>x. loan_id x = loan_id l) (map (\<lambda>x. if loan_id x = loan_id l then l else x) xs) = Some l"
    for xs
    by (induction xs) (auto split: if_splits)
  then show "Loan_findById (loan_id l) d = Some l0 \<Longrightarrow> ?thesis"
    by (simp add: Loan_findById_def Loan_save_def)
qed

lemma find_Some_key: "find (\<lambda>x. k x = i) xs = Some y \<Longrightarrow> k y = i"
  by (induction xs) (auto split: if_splits)

lemma Loan_preSave_fields [simp]:
  "loan_id (Loan_preSave c l) = loan_id l"
  "amount (Loan_preSave c l) = amount l"
  "totalDays (Loan_preSave c l) = totalDays l"
  "interestRate (Loan_preSave c l) = interestRate l"
  "loanStatus (Loan_preSave c l) = loanStatus l"
  "startDate (Loan_preSave c l) = startDate l"
  "endDate (Loan_preSave c l) = endDate l"
  "approvedAt (Loan_preSave c l) = approvedAt l"
  "totalPaid (Loan_preSave c l) = totalPaid l"
  "loanPenaltyAmount (Loan_preSave c l) = loanPenaltyAmount l"
  by (simp_all add: Loan_preSave_def Let_def)

lemma approve_Ok:
  assumes "approve now newId lid amountB totalDaysB d = (Ok, d')"
  shows "\<exists>lo changed. Loan_findById lid d = Some lo \<and> loanStatus lo = LoanPending
     \<and> d' = snd (generateEMISchedule now newId changed
                (lo\<lparr>amount := (case amountB of Num a \<Rightarrow> a | _ \<Rightarrow> amount lo),
                    totalDays := (case totalDaysB of Num n \<Rightarrow> n | _ \<Rightarrow> totalDays lo),
                    loanStatus := Approved, interestRate := 20\<rparr>) d)"
  using assms
  by (auto simp: approve_def Let_def split: option.splits if_splits body_int.splits)

lemma setHours0_addDays: "setHours0 (addDays t k) = addDays (setHours0 t) k"
  by (simp add: setHours0_def addDays_def)

lemma ceiling_divide_of_int:
  "\<lceil>(of_int c :: rat) / of_int N\<rceil> = - ((- c) div N)"
proof -
  have "\<lceil>(of_int c :: rat) / of_int N\<rceil> = - \<lfloor>(of_int (- c) :: rat) / of_int N\<rfloor>"
    by (simp add: ceiling_def)
  then show ?thesis by (simp only: floor_divide_of_int_eq)
qed

lemma ceil_sum_bounds:
  fixes x :: rat
  assumes "1 \<le> N"
  shows "of_int \<lceil>x\<rceil> \<le> (of_int N :: rat) * of_int \<lceil>x / of_int N\<rceil>"
    and "(of_int N :: rat) * of_int \<lceil>x / of_int N\<rceil> \<le> of_int \<lceil>x\<rceil> + of_int N - 1"
proof -
  have N: "(0::rat) < of_int N" using assms by simp
  have "x / of_int N \<le> of_int \<lceil>x / of_int N\<rceil>" by (rule le_of_int_ceiling)
  with N have "x \<le> of_int \<lceil>x / of_int N\<rceil> * of_int N"
    by (simp only: pos_divide_le_eq)
  then have "x \<le> of_int (N * \<lceil>x / of_int N\<rceil>)"
    by (simp add: mult.commute)
  then have "\<lceil>x\<rceil> \<le> N * \<lceil>x / of_int N\<rceil>" by (simp only: ceiling_le_iff)
  then show "of_int \<lceil>x\<rceil> \<le> (of_int N :: rat) * of_int \<lceil>x / of_int N\<rceil>"
    by (metis of_int_le_iff of_int_mult)
  have "x / of_int N \<le> of_int \<lceil>x\<rceil> / of_int N"
    using N by (simp add: divide_right_mono)
  then have "\<lceil>x / of_int N\<rceil> \<le> \<lceil>(of_int \<lceil>x\<rceil> :: rat) / of_int N\<rceil>"
    by (rule ceiling_mono)
  also have "\<dots> = - ((- \<lceil>x\<rceil>) div N)"
    by (rule ceiling_divide_of_int)
  finally have "N * \<lceil>x / of_int N\<rceil> \<le> N * (- ((- \<lceil>x\<rceil>) div N))"
    using assms by (intro mult_left_mono) simp_all
  also have "\<dots> \<le> \<lceil>x\<rceil> + N - 1"
  proof -
    have e: "N * ((- \<lceil>x\<rceil>) div N) + (- \<lceil>x\<rceil>) mod N = - \<lceil>x\<rceil>"
      by (rule mult_div_mod_eq)
    have m: "(- \<lceil>x\<rceil>) mod N < N" using assms by simp
    have "N * (- ((- \<lceil>x\<rceil>) div N)) = - (N * ((- \<lceil>x\<rceil>) div N))" by simp
    with e m show ?thesis by linarith
  qed
  finally have "N * \<lceil>x / of_int N\<rceil> \<le> \<lceil>x\<rceil> + N - 1" .
  then have "(of_int (N * \<lceil>x / of_int N\<rceil>) :: rat) \<le> of_int (\<lceil>x\<rceil> + N - 1)"
    by (simp only: of_int_le_iff)
  then show "(of_int N :: rat) * of_int \<lceil>x / of_int N\<rceil> \<le> of_int \<lceil>x\<rceil> + of_int N - 1"
    by simp
qed


lemma generateEMISchedule_emis:
  "emis (snd (generateEMISchedule now newId changed lo d)) =
     emis d @ map (\<lambda>day.
        \<lparr>emi_id = newId day, loanId = loan_id lo, userId = loanUserId lo, dayNumber = day,
         principalAmount = of_int \<lceil>(of_int (amount lo) :: rat) / of_int (totalDays lo)\<rceil>,
         interestAmount = of_int \<lceil>(of_int (amount lo) * (20 / 100) :: rat) / of_int (totalDays lo)\<rceil>,
         penaltyAmount = 0,
         totalAmount = of_int \<lceil>(of_int (amount lo) :: rat) / of_int (totalDays lo)\<rceil>
            + of_int \<lceil>(of_int (amount lo) * (20 / 100) :: rat) / of_int (totalDays lo)\<rceil>,
         dueDate = addDays (setHours0 (addDays now 1)) (day - 1), status = Pending,
         razorpayOrderId = None, razorpayPaymentId = None, paidAt = None\<rparr>) [1..totalDays lo]"
  by (simp add: generateEMISchedule_def Let_def Loan_save_def Math_ceil_def)

lemma generateEMISchedule_loan:
  assumes "Loan_findById (loan_id lo) d = Some lo0"
  shows "Loan_findById (loan_id lo) (snd (generateEMISchedule now newId changed lo d)) =
     Some (Loan_preSave changed (lo\<lparr>startDate := Some (setHours0 (addDays now 1)),
              endDate := Some (addDays (setHours0 (addDays now 1)) (totalDays lo - 1)),
              approvedAt := Some now\<rparr>))"
proof -
  define lo1 where "lo1 = Loan_preSave changed (lo\<lparr>startDate := Some (setHours0 (addDays now 1)),
              endDate := Some (addDays (setHours0 (addDays now 1)) (totalDays lo - 1)),
              approvedAt := Some now\<rparr>)"
  have id1: "loan_id lo1 = loan_id lo" by (simp add: lo1_def)
  have "Loan_findById (loan_id lo1) (d\<lparr>emis := xs\<rparr>) = Some lo0" for xs
    using assms by (simp add: Loan_findById_def id1)
  from find_Loan_save[OF this]
  have "Loan_findById (loan_id lo1) (Loan_save lo1 (d\<lparr>emis := xs\<rparr>)) = Some lo1" for xs .
  then show ?thesis
    by (simp add: generateEMISchedule_def Let_def lo1_def[symmetric] id1)
qed

text \<open>
  Claim C3.  Approving a loan with amount A and N days (N at least 1) appends exactly N
  installments with day numbers 1 to N, each with principal ceil(A/N), interest
  ceil((A * R/100)/N) for the loan's rate R, no penalty, total principal plus interest,
  pending, due at the start date plus (day number - 1) days; the start date is the day
  after approval, at midnight, and the loan gets it, the end date N - 1 days later and
  the approval time.  The principal sums to at least A and at most A + N - 1, the
  interest to at least ceil(A * R/100) and at most N - 1 more.
\<close>

theorem approve_generates_schedule:
  assumes "approve now newId lid amountB totalDaysB d = (Ok, d')"
    and "Loan_findById lid d = Some lo"
    and "A = (case amountB of Num a \<Rightarrow> a | _ \<Rightarrow> amount lo)"
    and "N = (case totalDaysB of Num n \<Rightarrow> n | _ \<Rightarrow> totalDays lo)"
    and "1 \<le> N"
    and "start = addDays (setHours0 now) 1"
    and "new = drop (length (emis d)) (emis d')"
  shows "emis d' = emis d @ new \<and> length new = nat N \<and> map dayNumber new = [1..N]
     \<and> (\<exists>lo'. Loan_findById lid d' = Some lo' \<and> amount lo' = A \<and> totalDays lo' = N
           \<and> loanStatus lo' = Approved
           \<and> startDate lo' = Some start \<and> endDate lo' = Some (addDays start (N - 1))
           \<and> approvedAt lo' = Some now
           \<and> (\<forall>e\<in>set new. loanId e = lid
                 \<and> principalAmount e = of_int \<lceil>(of_int A :: rat) / of_int N\<rceil>
                 \<and> interestAmount e = of_int \<lceil>(of_int A * interestRate lo' / 100) / of_int N\<rceil>
                 \<and> penaltyAmount e = 0
                 \<and> totalAmount e = principalAmount e + interestAmount e
                 \<and> dueDate e = addDays start (dayNumber e - 1)
                 \<and> status e = Pending)
           \<and> of_int A \<le> (\<Sum>e\<leftarrow>new. principalAmount e)
           \<and> (\<Sum>e\<leftarrow>new. principalAmount e) \<le> of_int A + of_int N - 1
           \<and> of_int \<lceil>of_int A * interestRate lo' / 100\<rceil> \<le> (\<Sum>e\<leftarrow>new. interestAmount e)
           \<and> (\<Sum>e\<leftarrow>new. interestAmount e)
                \<le> of_int \<lceil>of_int A * interestRate lo' / 100\<rceil> + of_int N - 1)"
proof -
  from approve_Ok[OF assms(1)] assms(2,3,4)
  obtain changed where pend: "loanStatus lo = LoanPending"
    and d': "d' = snd (generateEMISchedule now newId changed
                (lo\<lparr>amount := A, totalDays := N, loanStatus := Approved, interestRate := 20\<rparr>) d)"
    by auto
  define lo3 where "lo3 = lo\<lparr>amount := A, totalDays := N, loanStatus := Approved, interestRate := 20\<rparr>"
  define dP :: rat where "dP = of_int \<lceil>(of_int A :: rat) / of_int N\<rceil>"
  define dI :: rat where "dI = of_int \<lceil>(of_int A * (20 / 100) :: rat) / of_int N\<rceil>"
  define mk where "mk = (\<lambda>day.
        \<lparr>emi_id = newId day, loanId = loan_id lo3, userId = loanUserId lo3, dayNumber = day,
         principalAmount = dP, interestAmount = dI, penaltyAmount = 0, totalAmount = dP + dI,
         dueDate = addDays (setHours0 (addDays now 1)) (day - 1), status = Pending,
         razorpayOrderId = None, razorpayPaymentId = None, paidAt = None\<rparr>)"
  have lid: "loan_id lo = lid" using assms(2) by (auto simp: Loan_findById_def dest: find_Some_key)
  have id3: "loan_id lo3 = lid" by (simp add: lo3_def lid)
  have st: "setHours0 (addDays now 1) = start" by (simp add: assms(6) setHours0_addDays)
  have emis: "emis d' = emis d @ map mk [1..N]"
    unfolding d' lo3_def[symmetric] generateEMISchedule_emis
    by (simp add: mk_def dP_def dI_def lo3_def)
  then have new: "new = map mk [1..N]" by (simp add: assms(7))
  have len: "length new = nat N" by (simp add: new)
  have days: "map dayNumber new = [1..N]" by (simp add: new mk_def o_def)
  have f: "Loan_findById (loan_id lo3) d = Some lo" using assms(2) by (simp add: id3)
  define lo' where "lo' = Loan_preSave changed (lo3\<lparr>startDate := Some (setHours0 (addDays now 1)),
              endDate := Some (addDays (setHours0 (addDays now 1)) (totalDays lo3 - 1)),
              approvedAt := Some now\<rparr>)"
  have found: "Loan_findById lid d' = Some lo'"
    using generateEMISchedule_loan[OF f, of now newId changed]
    by (simp add: d' lo3_def[symmetric] lo'_def id3)
  have flds: "amount lo' = A" "totalDays lo' = N" "loanStatus lo' = Approved"
    "startDate lo' = Some start" "endDate lo' = Some (addDays start (N - 1))"
    "approvedAt lo' = Some now" "interestRate lo' = 20"
    by (simp_all add: lo'_def lo3_def st)
  have dI': "dI = of_int \<lceil>(of_int A * interestRate lo' / 100) / of_int N\<rceil>"
    by (simp add: dI_def flds)
  have each: "\<forall>e\<in>set new. loanId e = lid
                 \<and> principalAmount e = of_int \<lceil>(of_int A :: rat) / of_int N\<rceil>
                 \<and> interestAmount e = of_int \<lceil>(of_int A * interestRate lo' / 100) / of_int N\<rceil>
                 \<and> penaltyAmount e = 0
                 \<and> totalAmount e = principalAmount e + interestAmount e
                 \<and> dueDate e = addDays start (dayNumber e - 1)
                 \<and> status e = Pending"
    unfolding dI'[symmetric] dP_def[symmetric] by (auto simp: new mk_def id3 st)
  have ofN: "(of_nat (nat N) :: rat) = of_int N" using assms(5) by simp
  have sumP: "(\<Sum>e\<leftarrow>new. principalAmount e) = of_int N * dP"
    by (simp add: new mk_def o_def sum_list_triv ofN)
  have sumI: "(\<Sum>e\<leftarrow>new. interestAmount e) = of_int N * dI"
    by (simp add: new mk_def o_def sum_list_triv ofN)
  have bP: "of_int A \<le> of_int N * dP" "of_int N * dP \<le> of_int A + of_int N - 1"
    using ceil_sum_bounds[OF assms(5), of "of_int A"] by (simp_all add: dP_def)
  have bI: "of_int \<lceil>of_int A * interestRate lo' / 100\<rceil> \<le> of_int N * dI"
     "of_int N * dI \<le> of_int \<lceil>of_int A * interestRate lo' / 100\<rceil> + of_int N - 1"
    using ceil_sum_bounds[OF assms(5), of "of_int A * interestRate lo' / 100"]
    by (simp_all add: dI')
  show ?thesis
    using emis new len days found flds(1-6) each bP bI
    unfolding sumP sumI by blast
qed

lemma exApplied_reached:
  "applyLoan 1 5 (Num 1000) \<lparr>emis = [], loans = []\<rparr> = (Ok, exApplied)"
  by code_simp

theorem approve_generates_schedule_witness:
  "approve 0 exNewId 1 Absent (Num 3) exApplied = (Ok, exDb)
   \<and> emis exDb = emis exApplied @ drop (length (emis exApplied)) (emis exDb)
   \<and> length (drop (length (emis exApplied)) (emis exDb)) = nat 3
   \<and> map dayNumber (drop (length (emis exApplied)) (emis exDb)) = [1..3]
   \<and> (\<exists>lo'. Loan_findById 1 exDb = Some lo' \<and> amount lo' = 1000 \<and> totalDays lo' = 3
         \<and> of_int 1000 \<le> (\<Sum>e\<leftarrow>drop (length (emis exApplied)) (emis exDb). principalAmount e)
         \<and> (\<Sum>e\<leftarrow>drop (length (emis exApplied)) (emis exDb). principalAmount e)
              \<le> of_int 1000 + of_int 3 - 1)
   \<and> (\<Sum>e\<leftarrow>emis exDb. principalAmount e) = 1002
   \<and> (\<Sum>e\<leftarrow>emis exDb. interestAmount e) = 201"
proof -
  have h: "approve 0 exNewId 1 Absent (Num 3) exApplied = (Ok, exDb)"
      "Loan_findById 1 exApplied = Some exPending"
      "(1000::int) = (case Absent of Num a \<Rightarrow> a | _ \<Rightarrow> amount exPending)"
      "(3::int) = (case Num 3 of Num n \<Rightarrow> n | _ \<Rightarrow> totalDays exPending)"
      "(1::int) \<le> 3"
    by code_simp+
  have e: "(\<Sum>e\<leftarrow>emis exDb. principalAmount e) = 1002" "(\<Sum>e\<leftarrow>emis exDb. interestAmount e) = 201"
    by code_simp+
  note t = approve_generates_schedule[OF h refl refl]
  from t have
    "emis exDb = emis exApplied @ drop (length (emis exApplied)) (emis exDb)"
    "length (drop (length (emis exApplied)) (emis exDb)) = nat 3"
    "map dayNumber (drop (length (emis exApplied)) (emis exDb)) = [1..3]"
    "\<exists>lo'. Loan_findById 1 exDb = Some lo' \<and> amount lo' = 1000 \<and> totalDays lo' = 3
         \<and> of_int 1000 \<le> (\<Sum>e\<leftarrow>drop (length (emis exApplied)) (emis exDb). principalAmount e)
         \<and> (\<Sum>e\<leftarrow>drop (length (emis exApplied)) (emis exDb). principalAmount e)
              \<le> of_int 1000 + of_int 3 - 1"
    by blast+
  with h(1) e show ?thesis by (intro conjI)
qed

section \<open>Batched settlement\<close>

lemma paidEMI_simps [simp]:
  "emi_id (paidEMI r now e) = emi_id e"
  "loanId (paidEMI r now e) = loanId e"
  "userId (paidEMI r now e) = userId e"
  "dayNumber (paidEMI r now e) = dayNumber e"
  "principalAmount (paidEMI r now e) = principalAmount e"
  "interestAmount (paidEMI r now e) = interestAmount e"
  "penaltyAmount (paidEMI r now e) = penaltyAmount e"
  "totalAmount (paidEMI r now e) = totalAmount e"
  "dueDate (paidEMI r now e) = dueDate e"
  "status (paidEMI r now e) = Paid"
  by (simp_all add: paidEMI_def)

lemma payBatch_Cons:
  "payBatch r now (e # rest) (d, lo) =
     payBatch r now rest
       (EMI_save (paidEMI r now e) d,
        lo\<lparr>totalPaid := totalPaid lo + totalAmount e,
           remainingBalance := remainingBalance lo - (principalAmount e + interestAmount e)\<rparr>)"
  by (simp add: Let_def paidEMI_def)

declare payBatch.simps(2) [simp del]

lemma payBatch_loan:
  "snd (payBatch r now es (d, lo)) =
     lo\<lparr>totalPaid := totalPaid lo + (\<Sum>e\<leftarrow>es. totalAmount e),
        remainingBalance := remainingBalance lo
           - (\<Sum>e\<leftarrow>es. principalAmount e + interestAmount e)\<rparr>"
  by (induction es arbitrary: d lo) (simp_all add: payBatch_Cons algebra_simps)

lemma payBatch_db:
  assumes "distinct (map emi_id (emis d))" and "set es \<subseteq> set (emis d)"
    and "distinct (map emi_id es)"
  shows "fst (payBatch r now es (d, lo)) =
     d\<lparr>emis := map (\<lambda>x. if x \<in> set es then paidEMI r now x else x) (emis d)\<rparr>"
  using assms
proof (induction es arbitrary: d lo)
  case Nil
  show ?case by simp
next
  case (Cons e rest)
  have e_in: "e \<in> set (emis d)" and rest_in: "set rest \<subseteq> set (emis d)"
    and e_notin: "emi_id e \<notin> emi_id ` set rest" and rest_dist: "distinct (map emi_id rest)"
    using Cons.prems by auto
  have same: "\<And>x. x \<in> set (emis d) \<Longrightarrow> emi_id x = emi_id e \<Longrightarrow> x = e"
    using distinct_key_eq[OF Cons.prems(1) _ e_in] by blast
  define d1 where "d1 = EMI_save (paidEMI r now e) d"
  have emis1: "emis d1 = map (\<lambda>x. if emi_id x = emi_id e then paidEMI r now e else x) (emis d)"
    by (simp add: d1_def EMI_save_def)
  have ids1: "map emi_id (emis d1) = map emi_id (emis d)"
    by (simp add: emis1 o_def cong: map_cong)
  have dist1: "distinct (map emi_id (emis d1))" using Cons.prems(1) ids1 by simp
  have rest1: "set rest \<subseteq> set (emis d1)"
  proof
    fix x assume x: "x \<in> set rest"
    have "x \<in> set (emis d)" using x rest_in by blast
    moreover have "emi_id x \<noteq> emi_id e" using x e_notin by (metis imageI)
    ultimately show "x \<in> set (emis d1)"
      unfolding emis1 by (auto simp: image_iff intro!: bexI[of _ x])
  qed
  have "fst (payBatch r now (e # rest) (d, lo)) =
        d1\<lparr>emis := map (\<lambda>x. if x \<in> set rest then paidEMI r now x else x) (emis d1)\<rparr>"
    unfolding payBatch_Cons d1_def[symmetric] by (rule Cons.IH[OF dist1 rest1 rest_dist])
  also have "map (\<lambda>x. if x \<in> set rest then paidEMI r now x else x) (emis d1)
      = map (\<lambda>x. if x \<in> set (e # rest) then paidEMI r now x else x) (emis d)"
    unfolding emis1 map_map
  proof (intro map_cong refl)
    fix x assume x: "x \<in> set (emis d)"
    show "((\<lambda>x. if x \<in> set rest then paidEMI r now x else x) \<circ>
            (\<lambda>x. if emi_id x = emi_id e then paidEMI r now e else x)) x
          = (if x \<in> set (e # rest) then paidEMI r now x else x)"
    proof (cases "emi_id x = emi_id e")
      case True
      then have xe: "x = e" using same x by blast
      have "paidEMI r now e \<notin> set rest" using e_notin by (metis imageI paidEMI_simps(1))
      then show ?thesis using xe by simp
    next
      case False
      then have "x \<noteq> e" by blast
      then show ?thesis using False by simp
    qed
  qed
  finally show ?case by (simp add: d1_def EMI_save_def)
qed


lemma oldestUnpaid_props:
  assumes "distinct (map emi_id (emis d))"
  shows "set (oldestUnpaid lid d) \<subseteq> set (unpaidOf lid d)"
    and "set (oldestUnpaid lid d) \<subseteq> set (emis d)"
    and "distinct (map emi_id (oldestUnpaid lid d))"
    and "length (oldestUnpaid lid d) = min 7 (countUnpaid lid d)"
    and "\<forall>b\<in>set (oldestUnpaid lid d). \<forall>u\<in>set (unpaidOf lid d) - set (oldestUnpaid lid d).
           dayNumber b \<le> dayNumber u"
proof -
  define s where "s = sort_key dayNumber (unpaidOf lid d)"
  have b: "oldestUnpaid lid d = take 7 s" by (simp add: oldestUnpaid_def s_def)
  have sets: "set s = set (unpaidOf lid d)" by (simp add: s_def)
  show sub: "set (oldestUnpaid lid d) \<subseteq> set (unpaidOf lid d)"
    unfolding b using set_take_subset[of 7 s] sets by simp
  then show "set (oldestUnpaid lid d) \<subseteq> set (emis d)"
    by (auto simp: unpaidOf_def)
  have "distinct (map emi_id (unpaidOf lid d))"
    using assms by (simp add: unpaidOf_def distinct_map_filter)
  then have "distinct (map emi_id s)" by (simp add: distinct_map s_def)
  then show "distinct (map emi_id (oldestUnpaid lid d))"
    unfolding b by (simp add: take_map [symmetric])
  show "length (oldestUnpaid lid d) = min 7 (countUnpaid lid d)"
    by (simp add: b s_def countUnpaid_def min.commute)
  have "sorted (map dayNumber (take 7 s @ drop 7 s))" by (simp add: s_def)
  then have ord: "\<forall>x\<in>set (take 7 s). \<forall>y\<in>set (drop 7 s). dayNumber x \<le> dayNumber y"
    unfolding map_append sorted_append by simp
  show "\<forall>b\<in>set (oldestUnpaid lid d). \<forall>u\<in>set (unpaidOf lid d) - set (oldestUnpaid lid d).
           dayNumber b \<le> dayNumber u"
  proof (intro ballI)
    fix x u assume x: "x \<in> set (oldestUnpaid lid d)"
      and u: "u \<in> set (unpaidOf lid d) - set (oldestUnpaid lid d)"
    have "set s = set (take 7 s) \<union> set (drop 7 s)" by (metis append_take_drop_id set_append)
    with u sets b have "u \<in> set (drop 7 s)" by auto
    with x ord b show "dayNumber x \<le> dayNumber u" by simp
  qed
qed

lemma Loan_findById_emis_upd [simp]: "Loan_findById i (d\<lparr>emis := xs\<rparr>) = Loan_findById i d"
  by (simp add: Loan_findById_def)

lemma emis_Loan_save [simp]: "emis (Loan_save l d) = emis d"
  by (simp add: Loan_save_def)

lemma unpaidOf_Loan_save [simp]: "unpaidOf lid (Loan_save l d) = unpaidOf lid d"
  by (simp add: unpaidOf_def)

lemma oldestUnpaid_Loan_save [simp]: "oldestUnpaid lid (Loan_save l d) = oldestUnpaid lid d"
  by (simp add: oldestUnpaid_def)

lemma handleSubscriptionCharged_eq:
  assumes "distinct (map emi_id (emis d))"
    and "Loan_findById lid d = Some lo"
    and "subscriptionEntity p = Some (Some lid)" and "paymentEntity p = Some paymentId"
  shows "emis (handleSubscriptionCharged now p d) =
           map (\<lambda>x. if x \<in> set (oldestUnpaid lid d)
                     then paidEMI (GatewayRef paymentId) now x else x) (emis d)"
    and "\<exists>lo'. Loan_findById lid (handleSubscriptionCharged now p d) = Some lo'
           \<and> totalPaid lo' = totalPaid lo + (\<Sum>b\<leftarrow>oldestUnpaid lid d. totalAmount b)
           \<and> remainingBalance lo' = remainingBalance lo
                - (\<Sum>b\<leftarrow>oldestUnpaid lid d. principalAmount b + interestAmount b)"
proof -
  define batch where "batch = oldestUnpaid lid d"
  define r where "r = GatewayRef paymentId"
  note props = oldestUnpaid_props[OF assms(1), of lid, folded batch_def]
  have lid: "loan_id lo = lid" using assms(2) by (auto simp: Loan_findById_def dest: find_Some_key)
  show "emis (handleSubscriptionCharged now p d) =
           map (\<lambda>x. if x \<in> set (oldestUnpaid lid d)
                     then paidEMI (GatewayRef paymentId) now x else x) (emis d)"
  proof (cases "batch = []")
    case True
    then show ?thesis
      by (simp add: handleSubscriptionCharged_def assms(3,4) batch_def[symmetric] Let_def)
  next
    case False
    obtain d1 lo1 where pb: "payBatch r now batch (d, lo) = (d1, lo1)" by fastforce
    have d1: "d1 = d\<lparr>emis := map (\<lambda>x. if x \<in> set batch then paidEMI r now x else x) (emis d)\<rparr>"
      using payBatch_db[OF assms(1) props(2,3), of r now lo] pb by simp
    show ?thesis
      using False
      by (simp add: handleSubscriptionCharged_def assms(2,3,4) batch_def[symmetric] Let_def
            r_def[symmetric] pb d1)
  qed
  show "\<exists>lo'. Loan_findById lid (handleSubscriptionCharged now p d) = Some lo'
           \<and> totalPaid lo' = totalPaid lo + (\<Sum>b\<leftarrow>oldestUnpaid lid d. totalAmount b)
           \<and> remainingBalance lo' = remainingBalance lo
                - (\<Sum>b\<leftarrow>oldestUnpaid lid d. principalAmount b + interestAmount b)"
  proof (cases "batch = []")
    case True
    then show ?thesis
      by (simp add: handleSubscriptionCharged_def assms(2,3,4) batch_def[symmetric] Let_def)
  next
    case False
    obtain d1 lo1 where pb: "payBatch r now batch (d, lo) = (d1, lo1)" by fastforce
    have d1: "d1 = d\<lparr>emis := map (\<lambda>x. if x \<in> set batch then paidEMI r now x else x) (emis d)\<rparr>"
      using payBatch_db[OF assms(1) props(2,3), of r now lo] pb by simp
    have lo1: "lo1 = lo\<lparr>totalPaid := totalPaid lo + (\<Sum>e\<leftarrow>batch. totalAmount e),
        remainingBalance := remainingBalance lo
           - (\<Sum>e\<leftarrow>batch. principalAmount e + interestAmount e)\<rparr>"
      using payBatch_loan[of r now batch d lo] pb by simp
    define lo2 where "lo2 = (if countUnpaid lid d1 = 0 then lo1\<lparr>loanStatus := Completed\<rparr> else lo1)"
    have id2: "loan_id lo2 = lid" by (simp add: lo2_def lo1 lid)
    have f1: "Loan_findById (loan_id lo2) d1 = Some lo" using assms(2) by (simp add: d1 id2)
    have res: "handleSubscriptionCharged now p d = Loan_save lo2 d1"
      using False
      by (simp add: handleSubscriptionCharged_def assms(2,3,4) batch_def[symmetric] Let_def
            r_def[symmetric] pb lo2_def)
    have "Loan_findById lid (handleSubscriptionCharged now p d) = Some lo2"
      using find_Loan_save[OF f1] by (simp add: res id2)
    moreover have "totalPaid lo2 = totalPaid lo + (\<Sum>b\<leftarrow>batch. totalAmount b)"
      "remainingBalance lo2 = remainingBalance lo
                - (\<Sum>b\<leftarrow>batch. principalAmount b + interestAmount b)"
      by (simp_all add: lo2_def lo1)
    ultimately show ?thesis unfolding batch_def by blast
  qed
qed


lemma verifyAutopay_eq:
  assumes "distinct (map emi_id (emis d))"
    and "Loan_findById lid d = Some lo"
    and "subscription_id \<noteq> []" and "payment_id \<noteq> []" and "signature \<noteq> []"
    and "signature = hmac keySecret (payment_id @ ''|'' @ subscription_id)"
  shows "emis (snd (verifyAutopay hmac keySecret now subscription_id payment_id signature (Some lid) d)) =
           map (\<lambda>x. if x \<in> set (oldestUnpaid lid d)
                     then paidEMI (GatewayRef payment_id) now x else x) (emis d)"
    and "\<exists>lo'. Loan_findById lid
                  (snd (verifyAutopay hmac keySecret now subscription_id payment_id signature (Some lid) d))
                = Some lo'
           \<and> totalPaid lo' = totalPaid lo + (\<Sum>b\<leftarrow>oldestUnpaid lid d. totalAmount b)
           \<and> remainingBalance lo' = remainingBalance lo
                - (\<Sum>b\<leftarrow>oldestUnpaid lid d. principalAmount b + interestAmount b)"
proof -
  define batch where "batch = oldestUnpaid lid d"
  define r where "r = GatewayRef payment_id"
  define lo1 where "lo1 = lo\<lparr>autopayEnabled := True, autopayStatus := AutopayActive\<rparr>"
  define d1 where "d1 = Loan_save lo1 d"
  have lid: "loan_id lo = lid" using assms(2) by (auto simp: Loan_findById_def dest: find_Some_key)
  have id1: "loan_id lo1 = lid" by (simp add: lo1_def lid)
  have dist1: "distinct (map emi_id (emis d1))" using assms(1) by (simp add: d1_def)
  have b1: "oldestUnpaid lid d1 = batch" by (simp add: d1_def batch_def)
  note props = oldestUnpaid_props[OF dist1, of lid, unfolded b1]
  obtain d2 lo2 where pb: "payBatch r now batch (d1, lo1) = (d2, lo2)" by fastforce
  have d2: "d2 = d1\<lparr>emis := map (\<lambda>x. if x \<in> set batch then paidEMI r now x else x) (emis d1)\<rparr>"
    using payBatch_db[OF dist1 props(2,3), of r now lo1] pb by simp
  have lo2: "lo2 = lo1\<lparr>totalPaid := totalPaid lo1 + (\<Sum>e\<leftarrow>batch. totalAmount e),
        remainingBalance := remainingBalance lo1
           - (\<Sum>e\<leftarrow>batch. principalAmount e + interestAmount e)\<rparr>"
    using payBatch_loan[of r now batch d1 lo1] pb by simp
  have res: "snd (verifyAutopay hmac keySecret now subscription_id payment_id signature (Some lid) d)
      = Loan_save lo2 d2"
    using assms(3,4,5)
    by (simp add: verifyAutopay_def assms(2,6) Let_def lo1_def[symmetric] d1_def[symmetric] id1
          batch_def[symmetric] r_def[symmetric] pb)
  show "emis (snd (verifyAutopay hmac keySecret now subscription_id payment_id signature (Some lid) d)) =
           map (\<lambda>x. if x \<in> set (oldestUnpaid lid d)
                     then paidEMI (GatewayRef payment_id) now x else x) (emis d)"
    by (simp add: res d2 d1_def batch_def r_def)
  have id2: "loan_id lo2 = lid" by (simp add: lo2 id1)
  have "Loan_findById (loan_id lo1) d = Some lo" using assms(2) by (simp add: id1)
  from find_Loan_save[OF this] have "Loan_findById (loan_id lo2) d2 = Some lo1"
    by (simp add: d2 d1_def id1 id2)
  from find_Loan_save[OF this]
  have "Loan_findById lid (snd (verifyAutopay hmac keySecret now subscription_id payment_id
            signature (Some lid) d)) = Some lo2"
    by (simp add: res id2)
  moreover have "totalPaid lo2 = totalPaid lo + (\<Sum>b\<leftarrow>batch. totalAmount b)"
      "remainingBalance lo2 = remainingBalance lo
                - (\<Sum>b\<leftarrow>batch. principalAmount b + interestAmount b)"
    by (simp_all add: lo2 lo1_def)
  ultimately show "\<exists>lo'. Loan_findById lid
                  (snd (verifyAutopay hmac keySecret now subscription_id payment_id signature (Some lid) d))
                = Some lo'
           \<and> totalPaid lo' = totalPaid lo + (\<Sum>b\<leftarrow>oldestUnpaid lid d. totalAmount b)
           \<and> remainingBalance lo' = remainingBalance lo
                - (\<Sum>b\<leftarrow>oldestUnpaid lid d. principalAmount b + interestAmount b)"
    unfolding batch_def by blast
qed

lemma sum_list_const_len:
  "\<forall>b\<in>set bs. f b = (c::rat) \<Longrightarrow> (\<Sum>b\<leftarrow>bs. f b) = of_nat (length bs) * c"
  by (induction bs) (simp_all add: algebra_simps)

text \<open>
  Claim C8.  A batched subscription-charge settlement on a loan with k unpaid installments
  marks exactly the min(7, k) unpaid installments with the smallest day numbers paid, with
  the gateway's payment id and the time of settlement, and changes no other installment;
  the loan's \<open>totalPaid\<close> grows by the sum of their totals, by 840 for seven installments
  of 120.  Autopay activation settles the same installments.
\<close>

theorem batch_settles_oldest_unpaid:
  assumes "distinct (map emi_id (emis d))"
    and "Loan_findById lid d = Some lo"
    and "subscriptionEntity p = Some (Some lid)" and "paymentEntity p = Some paymentId"
    and "batch = oldestUnpaid lid d"
    and "d' = handleSubscriptionCharged now p d"
    and "subscription_id \<noteq> []" and "paymentId \<noteq> []" and "signature \<noteq> []"
    and "signature = hmac keySecret (paymentId @ ''|'' @ subscription_id)"
    and "d'' = snd (verifyAutopay hmac keySecret now subscription_id paymentId signature (Some lid) d)"
  shows "length batch = min 7 (countUnpaid lid d)
     \<and> set batch \<subseteq> set (unpaidOf lid d)
     \<and> (\<forall>b\<in>set batch. \<forall>u\<in>set (unpaidOf lid d) - set batch. dayNumber b \<le> dayNumber u)
     \<and> emis d' = map (\<lambda>x. if x \<in> set batch
                           then x\<lparr>status := Paid, razorpayPaymentId := Some (GatewayRef paymentId),
                                  paidAt := Some now\<rparr>
                           else x) (emis d)
     \<and> (\<exists>lo'. Loan_findById lid d' = Some lo'
           \<and> totalPaid lo' = totalPaid lo + (\<Sum>b\<leftarrow>batch. totalAmount b)
           \<and> (length batch = 7 \<and> (\<forall>b\<in>set batch. totalAmount b = 120)
                \<longrightarrow> totalPaid lo' = totalPaid lo + 840))
     \<and> emis d'' = emis d'
     \<and> (\<exists>lo''. Loan_findById lid d'' = Some lo''
           \<and> totalPaid lo'' = totalPaid lo + (\<Sum>b\<leftarrow>batch. totalAmount b))"
proof -
  note props = oldestUnpaid_props[OF assms(1), of lid, folded assms(5)]
  note eq = handleSubscriptionCharged_eq[OF assms(1-4), of now, folded assms(5) assms(6)]
  note au = verifyAutopay_eq[where hmac=hmac and keySecret=keySecret and now=now,
      OF assms(1,2,7,8,9,10), folded assms(5) assms(11)]
  from eq(2) obtain lo' where lo': "Loan_findById lid d' = Some lo'"
    "totalPaid lo' = totalPaid lo + (\<Sum>b\<leftarrow>batch. totalAmount b)" by blast
  have "length batch = 7 \<and> (\<forall>b\<in>set batch. totalAmount b = 120)
                \<longrightarrow> totalPaid lo' = totalPaid lo + 840"
    using sum_list_const_len[of batch totalAmount 120] lo'(2) by auto
  moreover have "emis d'' = emis d'" by (simp only: au(1) eq(1))
  moreover from au(2) have "\<exists>lo''. Loan_findById lid d'' = Some lo''
           \<and> totalPaid lo'' = totalPaid lo + (\<Sum>b\<leftarrow>batch. totalAmount b)" by blast
  ultimately show ?thesis
    using lo' props(1,4,5) eq(1) unfolding paidEMI_def by blast
qed

lemma exDb10_approved: "fst (approve 0 exNewId 1 Absent (Num 10) exApplied) = Ok"
  by code_simp

theorem batch_settles_oldest_unpaid_witness:
  "countUnpaid 1 exDb10 = 10
   \<and> map dayNumber (oldestUnpaid 1 exDb10) = [1, 2, 3, 4, 5, 6, 7]
   \<and> map totalAmount (oldestUnpaid 1 exDb10) = [120, 120, 120, 120, 120, 120, 120]
   \<and> length (oldestUnpaid 1 exDb10) = min 7 (countUnpaid 1 exDb10)
   \<and> map status (emis (handleSubscriptionCharged 100 exCharged exDb10))
       = [Paid, Paid, Paid, Paid, Paid, Paid, Paid, Pending, Pending, Pending]
   \<and> (\<exists>lo'. Loan_findById 1 (handleSubscriptionCharged 100 exCharged exDb10) = Some lo'
         \<and> totalPaid lo' = 0 + 840)
   \<and> emis (snd (verifyAutopay exHmac ''secret'' 100 ''sub_1'' ''pay_2''
                   (exHmac ''secret'' ''pay_2|sub_1'') (Some 1) exDb10))
       = emis (handleSubscriptionCharged 100 exCharged exDb10)"
proof -
  define lo where "lo = the (Loan_findById 1 exDb10)"
  have h: "distinct (map emi_id (emis exDb10))"
      "Loan_findById 1 exDb10 = Some lo"
      "subscriptionEntity exCharged = Some (Some 1)" "paymentEntity exCharged = Some ''pay_2''"
    unfolding lo_def by code_simp+
  have g: "''sub_1'' \<noteq> []" "''pay_2'' \<noteq> []" "exHmac ''secret'' ''pay_2|sub_1'' \<noteq> []"
      "exHmac ''secret'' ''pay_2|sub_1'' = exHmac ''secret'' (''pay_2'' @ ''|'' @ ''sub_1'')"
    by code_simp+
  have e: "countUnpaid 1 exDb10 = 10"
      "map dayNumber (oldestUnpaid 1 exDb10) = [1, 2, 3, 4, 5, 6, 7]"
      "map totalAmount (oldestUnpaid 1 exDb10) = [120, 120, 120, 120, 120, 120, 120]"
      "map status (emis (handleSubscriptionCharged 100 exCharged exDb10))
       = [Paid, Paid, Paid, Paid, Paid, Paid, Paid, Pending, Pending, Pending]"
      "totalPaid lo = 0"
    unfolding lo_def by code_simp+
  have l7: "length (oldestUnpaid 1 exDb10) = 7 \<and> (\<forall>b\<in>set (oldestUnpaid 1 exDb10). totalAmount b = 120)"
    by code_simp
  note t = batch_settles_oldest_unpaid[where hmac=exHmac and keySecret="''secret''",
      OF h refl refl g refl]
  from t l7 have
    "length (oldestUnpaid 1 exDb10) = min 7 (countUnpaid 1 exDb10)"
    "\<exists>lo'. Loan_findById 1 (handleSubscriptionCharged 100 exCharged exDb10) = Some lo'
         \<and> totalPaid lo' = totalPaid lo + 840"
    "emis (snd (verifyAutopay exHmac ''secret'' 100 ''sub_1'' ''pay_2''
                   (exHmac ''secret'' ''pay_2|sub_1'') (Some 1) exDb10))
       = emis (handleSubscriptionCharged 100 exCharged exDb10)"
    by blast+
  with e show ?thesis by (simp only: simp_thms)
qed

section \<open>Lifecycle of a loan: what settlements and sweeps preserve\<close>

lemma find_map_same_key:
  assumes "\<forall>x\<in>set xs. k (g x) = k x"
  shows "find (\<lambda>x. k x = i) (map g xs) = map_option g (find (\<lambda>x. k x = i) xs)"
  using assms by (induction xs) auto

lemma sum_filter_map:
  fixes h :: "'a \<Rightarrow> rat"
  shows "sum_list (map h (filter P (map f xs))) = sum_list (map (h \<circ> f) (filter (P \<circ> f) xs))"
  by (induction xs) auto

lemma ledgerInv_map:
  assumes inv: "ledgerInv lid A N d"
    and emis: "emis d' = map f (emis d)" and loans: "loans d' = map g (loans d)"
    and f: "\<forall>x\<in>set (emis d). emi_id (f x) = emi_id x \<and> loanId (f x) = loanId x
              \<and> principalAmount (f x) = principalAmount x \<and> interestAmount (f x) = interestAmount x
              \<and> (totalAmount x = principalAmount x + interestAmount x + penaltyAmount x
                  \<longrightarrow> totalAmount (f x) = principalAmount x + interestAmount x + penaltyAmount (f x))"
    and g: "\<forall>l\<in>set (loans d). loan_id (g l) = loan_id l \<and> amount (g l) = amount l
              \<and> totalDays (g l) = totalDays l \<and> interestRate (g l) = interestRate l"
    and pen: "\<forall>l\<in>set (loans d). loan_id l = lid \<longrightarrow>
                loanPenaltyAmount (g l) - loanPenaltyAmount l = penaltySum lid d' - penaltySum lid d"
  shows "ledgerInv lid A N d'"
proof -
  from inv obtain lo where
    d1: "distinct (map emi_id (emis d))" and d2: "distinct (map loan_id (loans d))"
    and len: "length (filter (\<lambda>e. loanId e = lid) (emis d)) = nat N"
    and each: "\<forall>e\<in>set (emis d). loanId e = lid \<longrightarrow>
           principalAmount e = of_int \<lceil>(of_int A :: rat) / of_int N\<rceil>
         \<and> interestAmount e = of_int \<lceil>(of_int A * 20 / 100 :: rat) / of_int N\<rceil>
         \<and> totalAmount e = principalAmount e + interestAmount e + penaltyAmount e"
    and lo: "Loan_findById lid d = Some lo" "amount lo = A" "totalDays lo = N"
            "interestRate lo = 20" "loanPenaltyAmount lo = penaltySum lid d"
    unfolding ledgerInv_def by blast
  have ids: "map emi_id (emis d') = map emi_id (emis d)"
    using f by (simp add: emis)
  have lids: "map loan_id (loans d') = map loan_id (loans d)"
    using g by (simp add: loans)
  have len': "length (filter (\<lambda>e. loanId e = lid) (emis d')) = nat N"
  proof -
    have "filter ((\<lambda>e. loanId e = lid) \<circ> f) (emis d) = filter (\<lambda>e. loanId e = lid) (emis d)"
      using f by (intro filter_cong) auto
    then show ?thesis using len by (simp add: emis filter_map)
  qed
  have each': "\<forall>e\<in>set (emis d'). loanId e = lid \<longrightarrow>
           principalAmount e = of_int \<lceil>(of_int A :: rat) / of_int N\<rceil>
         \<and> interestAmount e = of_int \<lceil>(of_int A * 20 / 100 :: rat) / of_int N\<rceil>
         \<and> totalAmount e = principalAmount e + interestAmount e + penaltyAmount e"
    using each f unfolding emis by auto
  have lo_in: "lo \<in> set (loans d)" and lo_id: "loan_id lo = lid"
    using lo(1) unfolding Loan_findById_def by (auto simp: find_Some_iff)
  have found': "Loan_findById lid d' = Some (g lo)"
    unfolding Loan_findById_def loans
    using find_map_same_key[of "loans d" loan_id g lid] g lo(1)
    by (simp add: Loan_findById_def)
  have "loanPenaltyAmount (g lo) = penaltySum lid d'"
    using pen lo_in lo_id lo(5) by fastforce
  moreover have "amount (g lo) = A" "totalDays (g lo) = N" "interestRate (g lo) = 20"
    using g lo_in lo(2,3,4) by auto
  ultimately show ?thesis
    unfolding ledgerInv_def using d1 d2 ids lids len' each' found' by auto
qed

lemma balanceInv_map:
  assumes inv: "balanceInv lid d"
    and loans: "loans d' = map g (loans d)"
    and g: "\<forall>l\<in>set (loans d). loan_id (g l) = loan_id l \<and> amount (g l) = amount l
              \<and> interestRate (g l) = interestRate l"
    and bal: "\<forall>l\<in>set (loans d). loan_id l = lid \<longrightarrow>
                remainingBalance l - remainingBalance (g l) = paidDue lid d' - paidDue lid d"
  shows "balanceInv lid d'"
proof -
  from inv obtain lo where lo: "Loan_findById lid d = Some lo"
    "remainingBalance lo = of_int (amount lo) + of_int (amount lo) * (interestRate lo / 100) - paidDue lid d"
    unfolding balanceInv_def by blast
  have lo_in: "lo \<in> set (loans d)" and lo_id: "loan_id lo = lid"
    using lo(1) unfolding Loan_findById_def by (auto simp: find_Some_iff)
  have found': "Loan_findById lid d' = Some (g lo)"
    unfolding Loan_findById_def loans
    using find_map_same_key[of "loans d" loan_id g lid] g lo(1)
    by (simp add: Loan_findById_def)
  have "remainingBalance lo - remainingBalance (g lo) = paidDue lid d' - paidDue lid d"
    using bal lo_in lo_id by blast
  moreover have "amount (g lo) = amount lo" "interestRate (g lo) = interestRate lo"
    using g lo_in by auto
  ultimately have "remainingBalance (g lo)
      = of_int (amount (g lo)) + of_int (amount (g lo)) * (interestRate (g lo) / 100) - paidDue lid d'"
    using lo(2) by simp
  with found' show ?thesis unfolding balanceInv_def by blast
qed

lemma markPaid_fields:
  "e\<lparr>status := Paid, paidAt := Some t, razorpayPaymentId := Some r\<rparr> = paidEMI r t e"
  by (cases e) (simp add: paidEMI_def)

text \<open>
  The completion check, for any store: the code shared by the three single-installment
  routes leaves the loan completed whenever no installment of it is unpaid afterwards,
  while autopay activation never changes the loan's status, however many remain.
\<close>

lemma countUnpaid_Loan_save [simp]: "countUnpaid lid (Loan_save l d) = countUnpaid lid d"
  by (simp add: countUnpaid_def unpaidOf_def Loan_save_def)

lemma settleTail_completes:
  assumes "Loan_findById (loanId e1) d1 = Some lo"
  shows "\<exists>lo'. Loan_findById (loanId e1) (settleTail e1 d1) = Some lo'
           \<and> loanStatus lo' = (if countUnpaid (loanId e1) (settleTail e1 d1) = 0 then Completed
                                else loanStatus lo)"
proof -
  have lid: "loan_id lo = loanId e1"
    using assms by (auto simp: Loan_findById_def dest: find_Some_key)
  define lo' where "lo' = (if countUnpaid (loan_id lo) d1 = 0
             then lo\<lparr>totalPaid := totalPaid lo + totalAmount e1,
                     remainingBalance := remainingBalance lo
                        - (principalAmount e1 + interestAmount e1),
                     loanStatus := Completed\<rparr>
             else lo\<lparr>totalPaid := totalPaid lo + totalAmount e1,
                     remainingBalance := remainingBalance lo
                        - (principalAmount e1 + interestAmount e1)\<rparr>)"
  have id': "loan_id lo' = loanId e1" by (simp add: lo'_def lid)
  have st: "settleTail e1 d1 = Loan_save lo' d1"
    by (simp add: settleTail_def assms lo'_def)
  have "Loan_findById (loan_id lo') d1 = Some lo" using assms by (simp add: id')
  from find_Loan_save[OF this] have "Loan_findById (loanId e1) (settleTail e1 d1) = Some lo'"
    by (simp add: st id')
  moreover have "loanStatus lo' = (if countUnpaid (loanId e1) (settleTail e1 d1) = 0 then Completed
                                else loanStatus lo)"
    by (simp add: st lo'_def lid)
  ultimately show ?thesis by blast
qed

lemma verifyAutopay_keeps_status:
  assumes "Loan_findById lid d = Some lo"
    and "subscription_id \<noteq> []" and "payment_id \<noteq> []" and "signature \<noteq> []"
    and "signature = hmac keySecret (payment_id @ ''|'' @ subscription_id)"
  shows "\<exists>lo'. Loan_findById lid
                  (snd (verifyAutopay hmac keySecret now subscription_id payment_id signature (Some lid) d))
                = Some lo'
           \<and> loanStatus lo' = loanStatus lo"
proof -
  define r where "r = GatewayRef payment_id"
  define lo1 where "lo1 = lo\<lparr>autopayEnabled := True, autopayStatus := AutopayActive\<rparr>"
  define d1 where "d1 = Loan_save lo1 d"
  define batch where "batch = oldestUnpaid lid d"
  have lid: "loan_id lo = lid" using assms(1) by (auto simp: Loan_findById_def dest: find_Some_key)
  have id1: "loan_id lo1 = lid" by (simp add: lo1_def lid)
  obtain d2 lo2 where pb: "payBatch r now batch (d1, lo1) = (d2, lo2)" by fastforce
  have lo2: "lo2 = lo1\<lparr>totalPaid := totalPaid lo1 + (\<Sum>e\<leftarrow>batch. totalAmount e),
        remainingBalance := remainingBalance lo1
           - (\<Sum>e\<leftarrow>batch. principalAmount e + interestAmount e)\<rparr>"
    using payBatch_loan[of r now batch d1 lo1] pb by simp
  have loans2: "loans d2 = loans d1"
  proof -
    have "loans (fst (payBatch r now es (d', l'))) = loans d'" for es d' l'
      by (induction es arbitrary: d' l') (simp_all add: payBatch_Cons EMI_save_def)
    from this[of batch d1 lo1] show ?thesis by (simp add: pb)
  qed
  have res: "snd (verifyAutopay hmac keySecret now subscription_id payment_id signature (Some lid) d)
      = Loan_save lo2 d2"
    using assms(2,3,4)
    by (simp add: verifyAutopay_def assms(1,5) Let_def lo1_def[symmetric] d1_def[symmetric] id1
          batch_def[symmetric] r_def[symmetric] pb)
  have id2: "loan_id lo2 = lid" by (simp add: lo2 id1)
  have "Loan_findById (loan_id lo1) d = Some lo" using assms(1) by (simp add: id1)
  from find_Loan_save[OF this] have "Loan_findById (loan_id lo2) d2 = Some lo1"
    by (simp add: Loan_findById_def loans2 d1_def id1 id2)
  from find_Loan_save[OF this]
  have "Loan_findById lid (snd (verifyAutopay hmac keySecret now subscription_id payment_id
            signature (Some lid) d)) = Some lo2"
    by (simp add: res id2)
  moreover have "loanStatus lo2 = loanStatus lo" by (simp add: lo2 lo1_def)
  ultimately show ?thesis by blast
qed

lemma simulate_eq:
  "snd (simulate now uid emiId d) =
     (case emiId of None \<Rightarrow> d
      | Some i \<Rightarrow>
          (case EMI_findById i d of None \<Rightarrow> d
           | Some e \<Rightarrow>
               if userId e \<noteq> uid \<or> status e = Paid then d
               else settleTail (paidEMI (SimRef now) now e)
                      (EMI_save (paidEMI (SimRef now) now e) d)))"
  by (simp add: simulate_def settleTail_def paidEMI_def Let_def split: option.splits)

lemma markPaid_eq:
  "snd (markPaid now uid i d) =
     (case EMI_findById i d of None \<Rightarrow> d
      | Some e \<Rightarrow>
          if status e = Paid then d
          else settleTail (paidEMI (AdminRef uid now) now e)
                 (EMI_save (paidEMI (AdminRef uid now) now e) d))"
  by (simp add: markPaid_def settleTail_def markPaid_fields Let_def split: option.splits)

lemma verify_eq:
  "snd (verify hmac keySecret now order_id payment_id signature emiId d) =
     (if order_id = [] \<or> payment_id = [] \<or> signature = [] \<or> emiId = None
         \<or> hmac keySecret (order_id @ ''|'' @ payment_id) \<noteq> signature then d
      else (case EMI_findById (the emiId) d of None \<Rightarrow> d
            | Some e \<Rightarrow> settleTail (paidEMI (GatewayRef payment_id) now e)
                          (EMI_save (paidEMI (GatewayRef payment_id) now e) d)))"
  by (simp add: verify_def settleTail_def paidEMI_def Let_def split: option.splits)

text \<open>
  The check of the status on the settlement paths, for any store: the simulated and the
  admin route return the store unchanged for a paid installment, and a batch never
  contains one; \<open>verify\<close> with a valid signature books it on the loan once more.
\<close>

lemma guarded_routes_refuse_paid:
  assumes "EMI_findById i d = Some e" and "status e = Paid"
  shows "snd (simulate now uid (Some i) d) = d"
    and "snd (markPaid now uid i d) = d"
    and "e \<notin> set (oldestUnpaid lid d)"
proof -
  show "snd (simulate now uid (Some i) d) = d" using assms by (simp add: simulate_eq)
  show "snd (markPaid now uid i d) = d" using assms by (simp add: markPaid_eq)
  have "set (oldestUnpaid lid d) \<subseteq> set (unpaidOf lid d)"
    unfolding oldestUnpaid_def using set_take_subset[of 7 "sort_key dayNumber (unpaidOf lid d)"]
    by simp
  then show "e \<notin> set (oldestUnpaid lid d)" using assms(2) by (auto simp: unpaidOf_def)
qed

lemma verify_books_paid_installment_again:
  assumes e: "EMI_findById i d = Some e" and paid: "status e = Paid"
    and lo: "Loan_findById (loanId e) d = Some lo"
    and req: "order_id \<noteq> []" "payment_id \<noteq> []" "signature \<noteq> []"
    and sig: "signature = hmac keySecret (order_id @ ''|'' @ payment_id)"
  shows "fst (verify hmac keySecret now order_id payment_id signature (Some i) d) = Ok"
    and "\<exists>lo'. Loan_findById (loanId e)
                  (snd (verify hmac keySecret now order_id payment_id signature (Some i) d)) = Some lo'
          \<and> totalPaid lo' = totalPaid lo + totalAmount e
          \<and> remainingBalance lo' = remainingBalance lo - (principalAmount e + interestAmount e)"
proof -
  define e1 where "e1 = paidEMI (GatewayRef payment_id) now e"
  define d1 where "d1 = EMI_save e1 d"
  have lo1: "Loan_findById (loanId e1) d1 = Some lo"
    using lo by (simp add: Loan_findById_def d1_def EMI_save_def e1_def paidEMI_def)
  have lid: "loan_id lo = loanId e1"
    using lo1 by (auto simp: Loan_findById_def dest: find_Some_key)
  show "fst (verify hmac keySecret now order_id payment_id signature (Some i) d) = Ok"
    using e req sig lo1
    by (simp add: verify_def Let_def e1_def d1_def paidEMI_def split: option.splits)
  have "snd (verify hmac keySecret now order_id payment_id signature (Some i) d) = settleTail e1 d1"
    using e req sig by (simp add: verify_eq e1_def d1_def)
  moreover have "\<exists>lo'. Loan_findById (loanId e1) (settleTail e1 d1) = Some lo'
          \<and> totalPaid lo' = totalPaid lo + totalAmount e1
          \<and> remainingBalance lo' = remainingBalance lo - (principalAmount e1 + interestAmount e1)"
  proof -
    define lo' where "lo' = (if countUnpaid (loan_id lo) d1 = 0
             then lo\<lparr>totalPaid := totalPaid lo + totalAmount e1,
                     remainingBalance := remainingBalance lo
                        - (principalAmount e1 + interestAmount e1),
                     loanStatus := Completed\<rparr>
             else lo\<lparr>totalPaid := totalPaid lo + totalAmount e1,
                     remainingBalance := remainingBalance lo
                        - (principalAmount e1 + interestAmount e1)\<rparr>)"
    have id': "loan_id lo' = loanId e1" by (simp add: lo'_def lid)
    have st: "settleTail e1 d1 = Loan_save lo' d1"
      by (simp add: settleTail_def lo1 lo'_def)
    have "Loan_findById (loan_id lo') d1 = Some lo" using lo1 by (simp add: id')
    from find_Loan_save[OF this] have "Loan_findById (loanId e1) (settleTail e1 d1) = Some lo'"
      by (simp add: st id')
    then show ?thesis by (auto simp: lo'_def)
  qed
  ultimately show "\<exists>lo'. Loan_findById (loanId e)
                  (snd (verify hmac keySecret now order_id payment_id signature (Some i) d)) = Some lo'
          \<and> totalPaid lo' = totalPaid lo + totalAmount e
          \<and> remainingBalance lo' = remainingBalance lo - (principalAmount e + interestAmount e)"
    by (simp add: e1_def paidEMI_def)
qed

lemma find_Some_mem: "find P xs = Some x \<Longrightarrow> x \<in> set xs \<and> P x"
  by (auto simp: find_Some_iff)

lemma settleTail_settled:
  assumes d1: "distinct (map emi_id (emis d))" and d2: "distinct (map loan_id (loans d))"
    and e: "EMI_findById i d = Some e"
  shows "settled (loanId e) [e] r now d (settleTail (paidEMI r now e) (EMI_save (paidEMI r now e) d))"
proof -
  define e1 where "e1 = paidEMI r now e"
  define d1' where "d1' = EMI_save e1 d"
  have e_in: "e \<in> set (emis d)" using e unfolding EMI_findById_def by (auto dest: find_Some_mem)
  have same: "\<And>x. x \<in> set (emis d) \<Longrightarrow> emi_id x = emi_id e \<Longrightarrow> x = e"
    using distinct_key_eq[OF d1 _ e_in] by blast
  have emis1: "emis d1' = map (\<lambda>x. if x \<in> set [e] then paidEMI r now x else x) (emis d)"
    unfolding d1'_def EMI_save_def e1_def using same by (auto intro!: map_cong)
  have loans1: "loans d1' = loans d" by (simp add: d1'_def EMI_save_def)
  have find1: "Loan_findById (loanId e1) d1' = Loan_findById (loanId e) d"
    by (simp add: Loan_findById_def loans1 e1_def)
  have emisT: "emis (settleTail e1 d1') = emis d1'"
    by (simp add: settleTail_def split: option.splits)
  have "\<exists>g. loans (settleTail e1 d1') = map g (loans d)
          \<and> (\<forall>l\<in>set (loans d). loan_id (g l) = loan_id l \<and> amount (g l) = amount l
                \<and> totalDays (g l) = totalDays l \<and> interestRate (g l) = interestRate l
                \<and> loanPenaltyAmount (g l) = loanPenaltyAmount l
                \<and> (loan_id l = loanId e \<longrightarrow> remainingBalance (g l) = remainingBalance l
                       - (\<Sum>b\<leftarrow>[e]. principalAmount b + interestAmount b))
                \<and> (loan_id l \<noteq> loanId e \<longrightarrow> remainingBalance (g l) = remainingBalance l))"
  proof (cases "Loan_findById (loanId e) d")
    case None
    then have "\<forall>l\<in>set (loans d). loan_id l \<noteq> loanId e"
      unfolding Loan_findById_def by (auto simp: find_None_iff)
    moreover have "loans (settleTail e1 d1') = map (\<lambda>l. l) (loans d)"
      using None by (simp add: settleTail_def find1 loans1)
    ultimately show ?thesis by (intro exI[of _ "\<lambda>l. l"]) auto
  next
    case (Some lo)
    have lo_in: "lo \<in> set (loans d)" and lo_id: "loan_id lo = loanId e"
      using Some unfolding Loan_findById_def by (auto dest: find_Some_mem)
    have sameL: "\<And>l. l \<in> set (loans d) \<Longrightarrow> loan_id l = loanId e \<Longrightarrow> l = lo"
      using distinct_key_eq[OF d2 _ lo_in] lo_id by auto
    define lo2 where "lo2 = (if countUnpaid (loan_id lo) d1' = 0
             then lo\<lparr>totalPaid := totalPaid lo + totalAmount e1,
                     remainingBalance := remainingBalance lo
                        - (principalAmount e1 + interestAmount e1),
                     loanStatus := Completed\<rparr>
             else lo\<lparr>totalPaid := totalPaid lo + totalAmount e1,
                     remainingBalance := remainingBalance lo
                        - (principalAmount e1 + interestAmount e1)\<rparr>)"
    have id2: "loan_id lo2 = loanId e" by (simp add: lo2_def lo_id)
    have "loans (settleTail e1 d1') = map (\<lambda>x. if loan_id x = loanId e then lo2 else x) (loans d)"
      using Some by (simp add: settleTail_def find1 lo2_def[symmetric] Loan_save_def loans1 id2)
    moreover have "amount lo2 = amount lo" "totalDays lo2 = totalDays lo"
      "interestRate lo2 = interestRate lo" "loanPenaltyAmount lo2 = loanPenaltyAmount lo"
      "remainingBalance lo2 = remainingBalance lo - (principalAmount e + interestAmount e)"
      by (simp_all add: lo2_def e1_def)
    ultimately show ?thesis
      using sameL id2 by (intro exI[of _ "\<lambda>x. if loan_id x = loanId e then lo2 else x"]) auto
  qed
  then show ?thesis
    unfolding settled_def e1_def[symmetric] d1'_def[symmetric]
    using e_in emis1 emisT by simp
qed

lemma settled_refl: "settled L [] r now d d"
  unfolding settled_def by (auto intro!: exI[of _ "\<lambda>l. l"] simp: map_idI)

lemma settled_none:
  "\<exists>L batch r. settled L batch r now d d \<and> (\<forall>b\<in>set batch. status b \<noteq> Paid)"
  using settled_refl[of 0 "GatewayRef []" now d]
  by (intro exI[of _ 0] exI[of _ "[]"] exI[of _ "GatewayRef []"]) simp

lemma oldestUnpaid_unpaid:
  "b \<in> set (oldestUnpaid lid d) \<Longrightarrow> loanId b = lid \<and> status b \<noteq> Paid"
  unfolding oldestUnpaid_def unpaidOf_def using set_take_subset[of 7] by fastforce

lemma batch_loans_settled:
  assumes d1: "distinct (map emi_id (emis d))" and d2: "distinct (map loan_id (loans d))"
    and lo: "Loan_findById lid d = Some lo"
    and emis: "emis d' = map (\<lambda>x. if x \<in> set (oldestUnpaid lid d) then paidEMI r now x else x) (emis d)"
    and loans: "loans d' = map (\<lambda>x. if loan_id x = lid then lo2 else x) (loans d)"
    and lo2: "loan_id lo2 = lid" "amount lo2 = amount lo" "totalDays lo2 = totalDays lo"
      "interestRate lo2 = interestRate lo" "loanPenaltyAmount lo2 = loanPenaltyAmount lo"
      "remainingBalance lo2 = remainingBalance lo
         - (\<Sum>b\<leftarrow>oldestUnpaid lid d. principalAmount b + interestAmount b)"
  shows "settled lid (oldestUnpaid lid d) r now d d'"
proof -
  note props = oldestUnpaid_props[OF d1, of lid]
  have lo_in: "lo \<in> set (loans d)" and lo_id: "loan_id lo = lid"
    using lo unfolding Loan_findById_def by (auto dest: find_Some_mem)
  have sameL: "\<And>l. l \<in> set (loans d) \<Longrightarrow> loan_id l = lid \<Longrightarrow> l = lo"
    using distinct_key_eq[OF d2 _ lo_in] lo_id by auto
  have "\<forall>l\<in>set (loans d). loan_id (if loan_id l = lid then lo2 else l) = loan_id l
      \<and> amount (if loan_id l = lid then lo2 else l) = amount l
      \<and> totalDays (if loan_id l = lid then lo2 else l) = totalDays l
      \<and> interestRate (if loan_id l = lid then lo2 else l) = interestRate l
      \<and> loanPenaltyAmount (if loan_id l = lid then lo2 else l) = loanPenaltyAmount l
      \<and> (loan_id l = lid \<longrightarrow> remainingBalance (if loan_id l = lid then lo2 else l) = remainingBalance l
              - (\<Sum>b\<leftarrow>oldestUnpaid lid d. principalAmount b + interestAmount b))
      \<and> (loan_id l \<noteq> lid \<longrightarrow> remainingBalance (if loan_id l = lid then lo2 else l) = remainingBalance l)"
    using sameL lo2 by auto
  then show ?thesis
    unfolding settled_def
    using props(2,3) oldestUnpaid_unpaid[of _ lid d] emis loans
    by (intro conjI exI[of _ "\<lambda>x. if loan_id x = lid then lo2 else x"]) auto
qed

lemma handleSubscriptionCharged_settled:
  assumes d1: "distinct (map emi_id (emis d))" and d2: "distinct (map loan_id (loans d))"
  shows "\<exists>L batch r. settled L batch r now d (handleSubscriptionCharged now p d)
            \<and> (\<forall>b\<in>set batch. status b \<noteq> Paid)"
proof -
  show ?thesis
  proof (cases "\<exists>lid pid lo. subscriptionEntity p = Some (Some lid) \<and> paymentEntity p = Some pid
                  \<and> Loan_findById lid d = Some lo \<and> oldestUnpaid lid d \<noteq> []")
    case False
    then have "handleSubscriptionCharged now p d = d"
      by (auto simp: handleSubscriptionCharged_def Let_def split: option.splits)
    then show ?thesis using settled_none[of now d] by simp
  next
    case True
    then obtain lid pid lo where pay: "subscriptionEntity p = Some (Some lid)"
        "paymentEntity p = Some pid" "Loan_findById lid d = Some lo" "oldestUnpaid lid d \<noteq> []"
      by blast
    define batch where "batch = oldestUnpaid lid d"
    define r where "r = GatewayRef pid"
    note props = oldestUnpaid_props[OF d1, of lid, folded batch_def]
    have lid: "loan_id lo = lid" using pay(3) by (auto simp: Loan_findById_def dest: find_Some_key)
    obtain da lo1 where pb: "payBatch r now batch (d, lo) = (da, lo1)" by fastforce
    have da: "da = d\<lparr>emis := map (\<lambda>x. if x \<in> set batch then paidEMI r now x else x) (emis d)\<rparr>"
      using payBatch_db[OF d1 props(2,3), of r now lo] pb by simp
    have lo1: "lo1 = lo\<lparr>totalPaid := totalPaid lo + (\<Sum>e\<leftarrow>batch. totalAmount e),
        remainingBalance := remainingBalance lo
           - (\<Sum>e\<leftarrow>batch. principalAmount e + interestAmount e)\<rparr>"
      using payBatch_loan[of r now batch d lo] pb by simp
    define lo2 where "lo2 = (if countUnpaid lid da = 0 then lo1\<lparr>loanStatus := Completed\<rparr> else lo1)"
    have res: "handleSubscriptionCharged now p d = Loan_save lo2 da"
      using pay(4)
      by (simp add: handleSubscriptionCharged_def pay(1,2,3) batch_def[symmetric] Let_def
            r_def[symmetric] pb lo2_def)
    have f: "loan_id lo2 = lid" "amount lo2 = amount lo" "totalDays lo2 = totalDays lo"
      "interestRate lo2 = interestRate lo" "loanPenaltyAmount lo2 = loanPenaltyAmount lo"
      "remainingBalance lo2 = remainingBalance lo
         - (\<Sum>b\<leftarrow>oldestUnpaid lid d. principalAmount b + interestAmount b)"
      by (simp_all add: lo2_def lo1 lid batch_def)
    have "settled lid (oldestUnpaid lid d) r now d (handleSubscriptionCharged now p d)"
      by (rule batch_loans_settled[OF d1 d2 pay(3) _ _ f])
         (simp_all add: res da batch_def Loan_save_def f(1))
    then show ?thesis using oldestUnpaid_unpaid[of _ lid d] by blast
  qed
qed

lemma handleSubscriptionCancelled_settled:
  "settled 0 [] (GatewayRef []) now d (handleSubscriptionCancelled p d)"
proof (cases "\<exists>lid. subscriptionEntity p = Some (Some lid)")
  case True
  then obtain lid where l: "subscriptionEntity p = Some (Some lid)" by blast
  show ?thesis
    unfolding settled_def
    by (auto simp: handleSubscriptionCancelled_def l map_idI
          intro!: exI[of _ "\<lambda>x. if loan_id x = lid
                               then x\<lparr>autopayEnabled := False, autopayStatus := AutopayCancelled\<rparr>
                               else x"])
next
  case False
  then have "handleSubscriptionCancelled p d = d"
    by (auto simp: handleSubscriptionCancelled_def split: option.splits)
  then show ?thesis using settled_refl by simp
qed

lemma webhook_settled:
  assumes d1: "distinct (map emi_id (emis d))" and d2: "distinct (map loan_id (loans d))"
  shows "\<exists>L batch r. settled L batch r now d
              (snd (webhook hmac parse webhookSecret now rawBody signature d))
            \<and> (\<forall>b\<in>set batch. status b \<noteq> Paid)"
proof -
  show ?thesis
  proof (cases "webhookSecret \<noteq> [] \<and> signature \<noteq> [] \<and> hmac webhookSecret rawBody = signature
                  \<and> parse rawBody \<noteq> None")
    case False
    then have "snd (webhook hmac parse webhookSecret now rawBody signature d) = d"
      by (auto simp: webhook_def Let_def split: option.splits)
    then show ?thesis using settled_none[of now d] by simp
  next
    case True
    then obtain p where p: "parse rawBody = Some p" by blast
    have res: "snd (webhook hmac parse webhookSecret now rawBody signature d) = handleWebhookEvent now p d"
      using True p by (simp add: webhook_def Let_def)
    have "\<exists>L batch r. settled L batch r now d (handleSubscriptionCancelled p d)
            \<and> (\<forall>b\<in>set batch. status b \<noteq> Paid)"
      using handleSubscriptionCancelled_settled[of now d p]
      by (intro exI[of _ 0] exI[of _ "[]"] exI[of _ "GatewayRef []"]) simp
    then show ?thesis
      unfolding res handleWebhookEvent_def
      using handleSubscriptionCharged_settled[OF d1 d2, of now p] settled_none[of now d]
      by simp
  qed
qed

lemma verifyAutopay_settled:
  assumes d1: "distinct (map emi_id (emis d))" and d2: "distinct (map loan_id (loans d))"
  shows "\<exists>L batch r. settled L batch r now d
              (snd (verifyAutopay hmac keySecret now subscription_id payment_id signature loanIdB d))
            \<and> (\<forall>b\<in>set batch. status b \<noteq> Paid)"
proof (cases "subscription_id \<noteq> [] \<and> payment_id \<noteq> [] \<and> signature \<noteq> []
                \<and> hmac keySecret (payment_id @ ''|'' @ subscription_id) = signature
                \<and> (\<exists>lid lo. loanIdB = Some lid \<and> Loan_findById lid d = Some lo)")
  case False
  then have "snd (verifyAutopay hmac keySecret now subscription_id payment_id signature loanIdB d) = d"
    by (auto simp: verifyAutopay_def Let_def split: option.splits)
  then show ?thesis using settled_none[of now d] by simp
next
  case True
  then obtain lid lo where l: "loanIdB = Some lid" "Loan_findById lid d = Some lo" by blast
  define batch where "batch = oldestUnpaid lid d"
  define r where "r = GatewayRef payment_id"
  define lo1 where "lo1 = lo\<lparr>autopayEnabled := True, autopayStatus := AutopayActive\<rparr>"
  define da where "da = Loan_save lo1 d"
  have lid: "loan_id lo = lid" using l(2) by (auto simp: Loan_findById_def dest: find_Some_key)
  have id1: "loan_id lo1 = lid" by (simp add: lo1_def lid)
  have dist1: "distinct (map emi_id (emis da))" using d1 by (simp add: da_def)
  have b1: "oldestUnpaid lid da = batch" by (simp add: da_def batch_def)
  note props = oldestUnpaid_props[OF dist1, of lid, unfolded b1]
  obtain db lo2 where pb: "payBatch r now batch (da, lo1) = (db, lo2)" by fastforce
  have db: "db = da\<lparr>emis := map (\<lambda>x. if x \<in> set batch then paidEMI r now x else x) (emis da)\<rparr>"
    using payBatch_db[OF dist1 props(2,3), of r now lo1] pb by simp
  have lo2: "lo2 = lo1\<lparr>totalPaid := totalPaid lo1 + (\<Sum>e\<leftarrow>batch. totalAmount e),
        remainingBalance := remainingBalance lo1
           - (\<Sum>e\<leftarrow>batch. principalAmount e + interestAmount e)\<rparr>"
    using payBatch_loan[of r now batch da lo1] pb by simp
  have res: "snd (verifyAutopay hmac keySecret now subscription_id payment_id signature loanIdB d)
      = Loan_save lo2 db"
    using True
    by (simp add: verifyAutopay_def l Let_def lo1_def[symmetric] da_def[symmetric] id1
          batch_def[symmetric] r_def[symmetric] pb)
  have f: "loan_id lo2 = lid" "amount lo2 = amount lo" "totalDays lo2 = totalDays lo"
      "interestRate lo2 = interestRate lo" "loanPenaltyAmount lo2 = loanPenaltyAmount lo"
      "remainingBalance lo2 = remainingBalance lo
         - (\<Sum>b\<leftarrow>oldestUnpaid lid d. principalAmount b + interestAmount b)"
    by (simp_all add: lo2 lo1_def lid batch_def)
  have "settled lid (oldestUnpaid lid d) r now d
          (snd (verifyAutopay hmac keySecret now subscription_id payment_id signature loanIdB d))"
    by (rule batch_loans_settled[OF d1 d2 l(2) _ _ f])
       (simp_all add: res db da_def batch_def Loan_save_def f(1) id1 o_def cong: map_cong)
  then show ?thesis using oldestUnpaid_unpaid[of _ lid d] by blast
qed

lemma single_settled:
  assumes d1: "distinct (map emi_id (emis d))" and d2: "distinct (map loan_id (loans d))"
    and e: "EMI_findById i d = Some e"
    and ok: "guarded \<longrightarrow> status e \<noteq> Paid"
  shows "\<exists>L batch r'. settled L batch r' now d
              (settleTail (paidEMI r now e) (EMI_save (paidEMI r now e) d))
            \<and> (guarded \<longrightarrow> (\<forall>b\<in>set batch. status b \<noteq> Paid))"
  using settleTail_settled[OF d1 d2 e, of r now] ok
  by (intro exI[of _ "loanId e"] exI[of _ "[e]"] exI[of _ r]) simp

lemma step_settled:
  assumes d1: "distinct (map emi_id (emis d))" and d2: "distinct (map loan_id (loans d))"
    and ev: "\<forall>t. ev \<noteq> Sweep t"
  shows "\<exists>L batch r now. settled L batch r now d (step hmac parse keySecret webhookSecret ev d)
            \<and> (settlesUnpaid ev d \<longrightarrow> (\<forall>b\<in>set batch. status b \<noteq> Paid))"
proof (cases ev)
  case (Simulate now uid emiId)
  show ?thesis
  proof (cases "\<exists>i e. emiId = Some i \<and> EMI_findById i d = Some e \<and> userId e = uid \<and> status e \<noteq> Paid")
    case True
    then obtain i e where ie: "emiId = Some i" "EMI_findById i d = Some e" "userId e = uid"
      "status e \<noteq> Paid" by blast
    have "step hmac parse keySecret webhookSecret ev d
        = settleTail (paidEMI (SimRef now) now e) (EMI_save (paidEMI (SimRef now) now e) d)"
      using ie by (simp add: Simulate simulate_eq)
    then show ?thesis
      using single_settled[OF d1 d2 ie(2), where guarded=True and r="SimRef now" and now=now] ie(4) by auto
  next
    case False
    then have "step hmac parse keySecret webhookSecret ev d = d"
      by (auto simp: Simulate simulate_eq split: option.splits)
    then show ?thesis using settled_none[of 0 d] by auto
  qed
next
  case (Verify now order_id payment_id signature emiId)
  show ?thesis
  proof (cases "order_id \<noteq> [] \<and> payment_id \<noteq> [] \<and> signature \<noteq> []
                  \<and> hmac keySecret (order_id @ ''|'' @ payment_id) = signature
                  \<and> (\<exists>i e. emiId = Some i \<and> EMI_findById i d = Some e)")
    case True
    then obtain i e where ie: "emiId = Some i" "EMI_findById i d = Some e" by blast
    have "step hmac parse keySecret webhookSecret ev d
        = settleTail (paidEMI (GatewayRef payment_id) now e)
            (EMI_save (paidEMI (GatewayRef payment_id) now e) d)"
      using True ie by (simp add: Verify verify_eq)
    moreover have "settlesUnpaid ev d \<longrightarrow> status e \<noteq> Paid"
      using ie by (simp add: Verify)
    ultimately show ?thesis
      using single_settled[OF d1 d2 ie(2), where guarded="settlesUnpaid ev d"
          and r="GatewayRef payment_id" and now=now]
      by auto
  next
    case False
    then have "step hmac parse keySecret webhookSecret ev d = d"
      by (auto simp: Verify verify_eq split: option.splits)
    then show ?thesis using settled_none[of 0 d] by auto
  qed
next
  case (MarkPaid now uid i)
  show ?thesis
  proof (cases "\<exists>e. EMI_findById i d = Some e \<and> status e \<noteq> Paid")
    case True
    then obtain e where ie: "EMI_findById i d = Some e" "status e \<noteq> Paid" by blast
    have "step hmac parse keySecret webhookSecret ev d
        = settleTail (paidEMI (AdminRef uid now) now e) (EMI_save (paidEMI (AdminRef uid now) now e) d)"
      using ie by (simp add: MarkPaid markPaid_eq)
    then show ?thesis
      using single_settled[OF d1 d2 ie(1), where guarded=True and r="AdminRef uid now" and now=now] ie(2) by auto
  next
    case False
    then have "step hmac parse keySecret webhookSecret ev d = d"
      by (auto simp: MarkPaid markPaid_eq split: option.splits)
    then show ?thesis using settled_none[of 0 d] by auto
  qed
next
  case (VerifyAutopay now subscription_id payment_id signature loanIdB)
  then show ?thesis
    using verifyAutopay_settled[OF d1 d2, where now=now and hmac=hmac and keySecret=keySecret
        and subscription_id=subscription_id and payment_id=payment_id and signature=signature
        and loanIdB=loanIdB]
    by auto
next
  case (Webhook now rawBody signature)
  then show ?thesis
    using webhook_settled[OF d1 d2, where now=now and hmac=hmac and parse=parse
        and webhookSecret=webhookSecret and rawBody=rawBody and signature=signature] by auto
next
  case (Sweep t)
  then show ?thesis using ev by blast
qed

lemma settled_ledgerInv:
  assumes "settled L batch r now d d'" and "ledgerInv lid A N d"
  shows "ledgerInv lid A N d'"
proof -
  from assms(1) obtain g where
    emis: "emis d' = map (\<lambda>x. if x \<in> set batch then paidEMI r now x else x) (emis d)"
    and loans: "loans d' = map g (loans d)"
    and g: "\<forall>l\<in>set (loans d). loan_id (g l) = loan_id l \<and> amount (g l) = amount l
                \<and> totalDays (g l) = totalDays l \<and> interestRate (g l) = interestRate l
                \<and> loanPenaltyAmount (g l) = loanPenaltyAmount l"
    unfolding settled_def by blast
  have "penaltySum lid d' = penaltySum lid d"
    unfolding penaltySum_def emis sum_filter_map
    by (rule arg_cong[where f=sum_list]) (auto simp: o_def intro!: map_cong filter_cong)
  then have pen: "\<forall>l\<in>set (loans d). loan_id l = lid \<longrightarrow>
                loanPenaltyAmount (g l) - loanPenaltyAmount l = penaltySum lid d' - penaltySum lid d"
    using g by simp
  show ?thesis
    by (rule ledgerInv_map[OF assms(2) emis loans _ _ pen]) (use g in auto)
qed

lemma sum_split_batch:
  fixes h :: "emi \<Rightarrow> rat"
  assumes "\<forall>b\<in>B. status b \<noteq> Paid"
  shows "sum_list (map h (filter (\<lambda>x. loanId x = lid \<and> (x \<in> B \<or> status x = Paid)) xs))
       = sum_list (map h (filter (\<lambda>x. loanId x = lid \<and> status x = Paid) xs))
         + sum_list (map h (filter (\<lambda>x. loanId x = lid \<and> x \<in> B) xs))"
  using assms by (induction xs) auto

lemma sum_over_batch:
  fixes h :: "emi \<Rightarrow> rat"
  assumes "distinct xs" and "distinct bs" and "set bs \<subseteq> set xs"
  shows "sum_list (map h (filter (\<lambda>x. x \<in> set bs) xs)) = sum_list (map h bs)"
proof -
  have "distinct (filter (\<lambda>x. x \<in> set bs) xs)" using assms(1) by simp
  moreover have "set (filter (\<lambda>x. x \<in> set bs) xs) = set bs" using assms(3) by auto
  ultimately show ?thesis
    using assms(2) by (simp add: sum_list_distinct_conv_sum_set)
qed

lemma paidDue_settled:
  assumes d1: "distinct (map emi_id (emis d))"
    and st: "settled L batch r now d d'"
    and unpaid: "\<forall>b\<in>set batch. status b \<noteq> Paid"
  shows "paidDue lid d' = paidDue lid d
          + (if L = lid then (\<Sum>b\<leftarrow>batch. principalAmount b + interestAmount b) else 0)"
proof -
  from st have sub: "set batch \<subseteq> set (emis d)" and db: "distinct (map emi_id batch)"
    and lb: "\<forall>b\<in>set batch. loanId b = L"
    and emis: "emis d' = map (\<lambda>x. if x \<in> set batch then paidEMI r now x else x) (emis d)"
    unfolding settled_def by blast+
  define h :: "emi \<Rightarrow> rat" where "h = (\<lambda>e. principalAmount e + interestAmount e)"
  have "paidDue lid d' =
      sum_list (map h (filter (\<lambda>x. loanId x = lid \<and> (x \<in> set batch \<or> status x = Paid)) (emis d)))"
    unfolding paidDue_def emis sum_filter_map h_def
    by (rule arg_cong[where f=sum_list]) (auto simp: o_def intro!: map_cong filter_cong)
  also have "\<dots> = paidDue lid d
         + sum_list (map h (filter (\<lambda>x. loanId x = lid \<and> x \<in> set batch) (emis d)))"
    using sum_split_batch[OF unpaid, of h lid "emis d"] by (simp add: paidDue_def h_def)
  also have "sum_list (map h (filter (\<lambda>x. loanId x = lid \<and> x \<in> set batch) (emis d)))
      = (if L = lid then sum_list (map h batch) else 0)"
  proof (cases "L = lid")
    case True
    have "filter (\<lambda>x. loanId x = lid \<and> x \<in> set batch) (emis d)
        = filter (\<lambda>x. x \<in> set batch) (emis d)"
      using lb True by (intro filter_cong) auto
    moreover have "distinct (emis d)" "distinct batch"
      using d1 db by (auto simp: distinct_map)
    ultimately show ?thesis using sum_over_batch[OF _ _ sub, of h] True by simp
  next
    case False
    have "filter (\<lambda>x. loanId x = lid \<and> x \<in> set batch) (emis d) = []"
      using lb False by (auto simp: filter_empty_conv)
    then show ?thesis using False by simp
  qed
  finally show ?thesis by (simp add: h_def)
qed

lemma settled_balanceInv:
  assumes d1: "distinct (map emi_id (emis d))"
    and st: "settled L batch r now d d'"
    and unpaid: "\<forall>b\<in>set batch. status b \<noteq> Paid"
    and inv: "balanceInv lid d"
  shows "balanceInv lid d'"
proof -
  from st obtain g where loans: "loans d' = map g (loans d)"
    and g: "\<forall>l\<in>set (loans d). loan_id (g l) = loan_id l \<and> amount (g l) = amount l
                \<and> totalDays (g l) = totalDays l \<and> interestRate (g l) = interestRate l
                \<and> loanPenaltyAmount (g l) = loanPenaltyAmount l
                \<and> (loan_id l = L \<longrightarrow> remainingBalance (g l) = remainingBalance l
                       - (\<Sum>b\<leftarrow>batch. principalAmount b + interestAmount b))
                \<and> (loan_id l \<noteq> L \<longrightarrow> remainingBalance (g l) = remainingBalance l)"
    unfolding settled_def by blast
  note pd = paidDue_settled[OF d1 st unpaid, of lid]
  have bal: "\<forall>l\<in>set (loans d). loan_id l = lid \<longrightarrow>
                remainingBalance l - remainingBalance (g l) = paidDue lid d' - paidDue lid d"
    using g pd by (cases "L = lid") auto
  show ?thesis
    by (rule balanceInv_map[OF inv loans _ bal]) (use g in auto)
qed

lemma sweep_db:
  assumes "distinct (map emi_id (emis d))"
  shows "snd (processOverdueEMIs now d) =
     d\<lparr>emis := map (sweep1 (setHours0 now)) (emis d),
        loans := map (\<lambda>l. l\<lparr>loanPenaltyAmount := loanPenaltyAmount l
                    + penaltyDelta (setHours0 now) (lateEMIs (setHours0 now) d) (loan_id l)\<rparr>)
                  (loans d)\<rparr>"
  by (simp add: processOverdueEMIs_eq overdueLoop_lateEMIs[OF assms])

lemma sweep1_static [simp]:
  "principalAmount (sweep1 today x) = principalAmount x"
  "interestAmount (sweep1 today x) = interestAmount x"
  "(status (sweep1 today x) = Paid) = (status x = Paid)"
  by (auto simp: sweep1_def isLate_def)

lemma sweep1_total:
  "totalAmount x = principalAmount x + interestAmount x + penaltyAmount x
   \<Longrightarrow> totalAmount (sweep1 today x)
        = principalAmount x + interestAmount x + penaltyAmount (sweep1 today x)"
  by (simp add: sweep1_def sweptEMI_def)

lemma sweep_ledgerInv:
  assumes "ledgerInv lid A N d"
  shows "ledgerInv lid A N (snd (processOverdueEMIs now d))"
proof -
  define today where "today = setHours0 now"
  define d' where "d' = snd (processOverdueEMIs now d)"
  have d1: "distinct (map emi_id (emis d))" using assms by (simp add: ledgerInv_def)
  have emis: "emis d' = map (sweep1 today) (emis d)"
    and loans: "loans d' = map (\<lambda>l. l\<lparr>loanPenaltyAmount := loanPenaltyAmount l
                    + penaltyDelta today (lateEMIs today d) (loan_id l)\<rparr>) (loans d)"
    by (simp_all add: d'_def sweep_db[OF d1] today_def)
  have "penaltyDelta today (lateEMIs today d) lid = penaltySum lid d' - penaltySum lid d"
    by (simp add: lateEMIs_filter penaltyDelta_as_difference penaltySum_def emis)
  then have pen: "\<forall>l\<in>set (loans d). loan_id l = lid \<longrightarrow>
      loanPenaltyAmount (l\<lparr>loanPenaltyAmount := loanPenaltyAmount l
                    + penaltyDelta today (lateEMIs today d) (loan_id l)\<rparr>) - loanPenaltyAmount l
        = penaltySum lid d' - penaltySum lid d"
    by simp
  show ?thesis
    unfolding d'_def[symmetric]
    by (rule ledgerInv_map[OF assms emis loans _ _ pen]) (simp_all add: sweep1_total)
qed

lemma sweep_balanceInv:
  assumes d1: "distinct (map emi_id (emis d))" and inv: "balanceInv lid d"
  shows "balanceInv lid (snd (processOverdueEMIs now d))"
proof -
  define today where "today = setHours0 now"
  define d' where "d' = snd (processOverdueEMIs now d)"
  have emis: "emis d' = map (sweep1 today) (emis d)"
    and loans: "loans d' = map (\<lambda>l. l\<lparr>loanPenaltyAmount := loanPenaltyAmount l
                    + penaltyDelta today (lateEMIs today d) (loan_id l)\<rparr>) (loans d)"
    by (simp_all add: d'_def sweep_db[OF d1] today_def)
  have "paidDue lid d' = paidDue lid d"
    unfolding paidDue_def emis sum_filter_map
    by (rule arg_cong[where f=sum_list]) (auto simp: o_def intro!: map_cong filter_cong)
  then have bal: "\<forall>l\<in>set (loans d). loan_id l = lid \<longrightarrow>
      remainingBalance l - remainingBalance (l\<lparr>loanPenaltyAmount := loanPenaltyAmount l
                    + penaltyDelta today (lateEMIs today d) (loan_id l)\<rparr>)
        = paidDue lid d' - paidDue lid d"
    by simp
  show ?thesis
    unfolding d'_def[symmetric]
    by (rule balanceInv_map[OF inv loans _ bal]) simp
qed

lemma step_invariants:
  assumes "ledgerInv lid A N d"
  shows "ledgerInv lid A N (step hmac parse keySecret webhookSecret ev d)"
    and "settlesUnpaid ev d \<Longrightarrow> balanceInv lid d
         \<Longrightarrow> balanceInv lid (step hmac parse keySecret webhookSecret ev d)"
proof -
  have d1: "distinct (map emi_id (emis d))" and d2: "distinct (map loan_id (loans d))"
    using assms by (simp_all add: ledgerInv_def)
  show "ledgerInv lid A N (step hmac parse keySecret webhookSecret ev d)"
  proof (cases "\<exists>t. ev = Sweep t")
    case True
    then show ?thesis using sweep_ledgerInv[OF assms] by auto
  next
    case False
    then show ?thesis
      using step_settled[OF d1 d2, of ev hmac parse keySecret webhookSecret]
        settled_ledgerInv[OF _ assms] by blast
  qed
  show "balanceInv lid (step hmac parse keySecret webhookSecret ev d)"
    if g: "settlesUnpaid ev d" and b: "balanceInv lid d"
  proof (cases "\<exists>t. ev = Sweep t")
    case True
    then show ?thesis using sweep_balanceInv[OF d1 b] by auto
  next
    case False
    then show ?thesis
      using step_settled[OF d1 d2, of ev hmac parse keySecret webhookSecret] g
        settled_balanceInv[OF d1 _ _ b] by blast
  qed
qed

lemma run_ledgerInv:
  "ledgerInv lid A N d \<Longrightarrow> ledgerInv lid A N (run hmac parse keySecret webhookSecret evs d)"
  by (induction evs arbitrary: d) (simp_all add: step_invariants(1))

lemma run_balanceInv:
  "ledgerInv lid A N d \<Longrightarrow> balanceInv lid d
   \<Longrightarrow> settlesUnpaidRun hmac parse keySecret webhookSecret evs d
   \<Longrightarrow> balanceInv lid (run hmac parse keySecret webhookSecret evs d)"
  by (induction evs arbitrary: d) (simp_all add: step_invariants)

lemma approve_Ok_changed:
  assumes "approve now newId lid amountB totalDaysB d = (Ok, d')"
  shows "\<exists>lo. Loan_findById lid d = Some lo \<and> loanStatus lo = LoanPending
     \<and> d' = snd (generateEMISchedule now newId
                ((case amountB of Num a \<Rightarrow> a | _ \<Rightarrow> amount lo) \<noteq> amount lo
                 \<or> (case totalDaysB of Num n \<Rightarrow> n | _ \<Rightarrow> totalDays lo) \<noteq> totalDays lo)
                (lo\<lparr>amount := (case amountB of Num a \<Rightarrow> a | _ \<Rightarrow> amount lo),
                    totalDays := (case totalDaysB of Num n \<Rightarrow> n | _ \<Rightarrow> totalDays lo),
                    loanStatus := Approved, interestRate := 20\<rparr>) d)"
  using assms
  by (auto simp: approve_def Let_def split: option.splits if_splits body_int.splits)

lemma Loan_preSave_balance:
  "remainingBalance (Loan_preSave c l) =
     (if c then of_int (amount l) + of_int (amount l) * (interestRate l / 100)
      else remainingBalance l)"
  by (simp add: Loan_preSave_def Let_def)

lemma approve_establishes:
  assumes ok: "approve now newId lid amountB totalDaysB d = (Ok, d0)"
    and dl: "distinct (map loan_id (loans d))" and de: "distinct (map emi_id (emis d0))"
    and pend: "pendingApplication lid d"
    and lo0: "Loan_findById lid d0 = Some lo0" and N1: "1 \<le> totalDays lo0"
  shows "ledgerInv lid (amount lo0) (totalDays lo0) d0" and "balanceInv lid d0"
proof -
  from approve_Ok_changed[OF ok] obtain lo where lo: "Loan_findById lid d = Some lo"
    and d0: "d0 = snd (generateEMISchedule now newId
                ((case amountB of Num a \<Rightarrow> a | _ \<Rightarrow> amount lo) \<noteq> amount lo
                 \<or> (case totalDaysB of Num n \<Rightarrow> n | _ \<Rightarrow> totalDays lo) \<noteq> totalDays lo)
                (lo\<lparr>amount := (case amountB of Num a \<Rightarrow> a | _ \<Rightarrow> amount lo),
                    totalDays := (case totalDaysB of Num n \<Rightarrow> n | _ \<Rightarrow> totalDays lo),
                    loanStatus := Approved, interestRate := 20\<rparr>) d)"
    by blast
  define A where "A = (case amountB of Num a \<Rightarrow> a | _ \<Rightarrow> amount lo)"
  define N where "N = (case totalDaysB of Num n \<Rightarrow> n | _ \<Rightarrow> totalDays lo)"
  define changed where "changed \<longleftrightarrow> A \<noteq> amount lo \<or> N \<noteq> totalDays lo"
  define lo3 where "lo3 = lo\<lparr>amount := A, totalDays := N, loanStatus := Approved, interestRate := 20\<rparr>"
  define dP :: rat where "dP = of_int \<lceil>(of_int A :: rat) / of_int N\<rceil>"
  define dI :: rat where "dI = of_int \<lceil>(of_int A * (20 / 100) :: rat) / of_int N\<rceil>"
  define mk where "mk = (\<lambda>day.
        \<lparr>emi_id = newId day, loanId = loan_id lo3, userId = loanUserId lo3, dayNumber = day,
         principalAmount = dP, interestAmount = dI, penaltyAmount = 0, totalAmount = dP + dI,
         dueDate = addDays (setHours0 (addDays now 1)) (day - 1), status = Pending,
         razorpayOrderId = None, razorpayPaymentId = None, paidAt = None\<rparr>)"
  define lo' where "lo' = Loan_preSave changed (lo3\<lparr>startDate := Some (setHours0 (addDays now 1)),
              endDate := Some (addDays (setHours0 (addDays now 1)) (totalDays lo3 - 1)),
              approvedAt := Some now\<rparr>)"
  have d0': "d0 = snd (generateEMISchedule now newId changed lo3 d)"
    unfolding d0 changed_def lo3_def A_def N_def ..
  have lid: "loan_id lo = lid" using lo by (auto simp: Loan_findById_def dest: find_Some_key)
  have id3: "loan_id lo3 = lid" by (simp add: lo3_def lid)
  have emis: "emis d0 = emis d @ map mk [1..N]"
    unfolding d0' generateEMISchedule_emis by (simp add: mk_def dP_def dI_def lo3_def)
  have loans: "loans d0 = map (\<lambda>x. if loan_id x = lid then lo' else x) (loans d)"
    by (simp add: d0' generateEMISchedule_def Let_def Loan_save_def lo'_def id3)
  have f: "Loan_findById (loan_id lo3) d = Some lo" using lo by (simp add: id3)
  have found: "Loan_findById lid d0 = Some lo'"
    using generateEMISchedule_loan[OF f, of now newId changed]
    by (simp add: d0' lo'_def id3)
  then have eq0: "lo0 = lo'" using lo0 by simp
  have flds: "amount lo' = A" "totalDays lo' = N" "interestRate lo' = 20"
    "loanPenaltyAmount lo' = loanPenaltyAmount lo"
    by (simp_all add: lo'_def lo3_def)
  have N1': "1 \<le> N" using N1 by (simp add: eq0 flds)
  from pend have p: "interestRate lo = 20" "loanPenaltyAmount lo = 0"
    "remainingBalance lo = of_int (amount lo) + of_int (amount lo) * (interestRate lo / 100)"
    and none: "\<forall>e\<in>set (emis d). loanId e \<noteq> lid"
    unfolding pendingApplication_def using lo by auto
  have old: "filter (\<lambda>e. loanId e = lid) (emis d) = []"
    using none by (auto simp: filter_empty_conv)
  have new: "filter (\<lambda>e. loanId e = lid) (map mk [1..N]) = map mk [1..N]"
    by (auto simp: filter_id_conv mk_def id3)
  have mine: "filter (\<lambda>e. loanId e = lid) (emis d0) = map mk [1..N]"
    by (simp add: emis old new)
  have len: "length (filter (\<lambda>e. loanId e = lid) (emis d0)) = nat N"
    by (simp add: mine)
  have each: "\<forall>e\<in>set (emis d0). loanId e = lid \<longrightarrow>
           principalAmount e = of_int \<lceil>(of_int A :: rat) / of_int N\<rceil>
         \<and> interestAmount e = of_int \<lceil>(of_int A * 20 / 100 :: rat) / of_int N\<rceil>
         \<and> totalAmount e = principalAmount e + interestAmount e + penaltyAmount e"
    using none by (auto simp: emis mk_def dP_def dI_def)
  have ps: "penaltySum lid d0 = 0"
    unfolding penaltySum_def mine by (simp add: mk_def o_def)
  have pd: "paidDue lid d0 = 0"
  proof -
    have "filter (\<lambda>e. loanId e = lid \<and> status e = Paid) (emis d0) = []"
      using none by (auto simp: filter_empty_conv emis mk_def)
    then show ?thesis by (simp add: paidDue_def)
  qed
  have dl0: "distinct (map loan_id (loans d0))"
  proof -
    have "map loan_id (loans d0) = map loan_id (loans d)"
      unfolding loans using flds by (auto simp: lo'_def id3)
    then show ?thesis using dl by simp
  qed
  show "ledgerInv lid (amount lo0) (totalDays lo0) d0"
    unfolding ledgerInv_def eq0 flds
    using de dl0 len each found flds p(2) ps by auto
  have "remainingBalance lo' = of_int A + of_int A * (20 / 100)"
  proof (cases changed)
    case True
    then show ?thesis by (simp add: lo'_def Loan_preSave_balance lo3_def)
  next
    case False
    then have "amount lo = A" by (simp add: changed_def)
    then show ?thesis using False p by (simp add: lo'_def Loan_preSave_balance lo3_def)
  qed
  then show "balanceInv lid d0"
    unfolding balanceInv_def using found flds pd by auto
qed

text \<open>
  Along the life of a loan whose sweeps never go back in time, every unpaid installment
  is as generation or the latest sweep left it: it carries the penalty of the days it was
  overdue at that sweep.  So the installments that a sweep meets are of the kind for
  which it ends with penalty interest times days overdue and status overdue.
\<close>

lemma daysOverdueOf_mono: "T \<le> T' \<Longrightarrow> daysOverdueOf T e \<le> daysOverdueOf T' e"
  unfolding daysOverdueOf_def Math_round_def
  by (intro floor_mono add_right_mono divide_right_mono) (simp_all add: msPerDay_def)

lemma daysOverdueOf_not_due: "today \<le> dueDate e \<Longrightarrow> daysOverdueOf today e \<le> 0"
proof -
  assume a: "today \<le> dueDate e"
  have "(of_int (today - dueDate e) :: rat) / of_int msPerDay \<le> 0"
    using a by (simp add: msPerDay_def divide_le_0_iff)
  then have "(of_int (today - dueDate e) :: rat) / of_int msPerDay + 1 / 2 < 1" by linarith
  then have "\<lfloor>(of_int (today - dueDate e) :: rat) / of_int msPerDay + 1 / 2\<rfloor> < 1"
    by (simp add: floor_less_iff)
  then show ?thesis by (simp add: daysOverdueOf_def Math_round_def)
qed

lemma daysOverdueOf_sweep1 [simp]: "daysOverdueOf T (sweep1 today e) = daysOverdueOf T e"
  by (simp add: daysOverdueOf_def sweep1_def sweptEMI_def)

lemma sweep1_accrued:
  assumes acc: "accruedFor (max 0 (daysOverdueOf T e)) e" and le: "T \<le> today"
    and unpaid: "status e \<noteq> Paid"
  shows "accruedFor (max 0 (daysOverdueOf today e)) (sweep1 today e)"
proof -
  define k where "k = max 0 (daysOverdueOf T e)"
  define n where "n = daysOverdueOf today e"
  have kn: "k \<le> max 0 n" using daysOverdueOf_mono[OF le, of e] by (simp add: k_def n_def)
  have acc': "accruedFor k e" using acc by (simp add: k_def)
  have i0: "0 < interestAmount e" and k0: "0 \<le> k"
    and pen: "penaltyAmount e = interestAmount e * of_int k"
    and tot: "totalAmount e = principalAmount e + interestAmount e + penaltyAmount e"
    and st: "status e = Overdue \<longleftrightarrow> 0 < k"
    using acc' by (simp_all add: accruedFor_def)
  have late: "isLate today e \<longleftrightarrow> dueDate e < today"
    using unpaid by (cases "status e") (simp_all add: isLate_def)
  show ?thesis
  proof (cases "dueDate e < today \<and> 0 < n")
    case True
    show ?thesis
    proof (cases "k < n")
      case True
      have "interestAmount e * of_int k < interestAmount e * of_int n"
        using i0 True by simp
      then have "penaltyApplies today e"
        using \<open>dueDate e < today \<and> 0 < n\<close> by (simp add: penaltyApplies_def newPenaltyOf_def n_def pen)
      then have "sweep1 today e = sweptEMI today e"
        using late \<open>dueDate e < today \<and> 0 < n\<close> by (simp add: sweep1_def)
      then show ?thesis
        using i0 \<open>dueDate e < today \<and> 0 < n\<close>
        by (simp add: accruedFor_def sweptEMI_def newPenaltyOf_def n_def[symmetric] max_def)
    next
      case False
      then have eq: "k = n" using kn True by simp
      have "\<not> penaltyApplies today e"
        by (simp add: penaltyApplies_def newPenaltyOf_def n_def[symmetric] pen eq)
      then have "sweep1 today e = e" by (simp add: sweep1_def)
      then show ?thesis
        using acc' True eq by (simp add: n_def[symmetric] max_def)
    qed
  next
    case False
    have n0: "n \<le> 0"
    proof (cases "dueDate e < today")
      case True
      then show ?thesis using False by simp
    next
      case False
      then show ?thesis using daysOverdueOf_not_due[of today e] by (simp add: n_def)
    qed
    then have k00: "k = 0" using kn k0 by simp
    have "sweep1 today e = e"
      using False late n0 by (auto simp: sweep1_def penaltyApplies_def n_def)
    then show ?thesis
      using acc' n0 k00 by (simp add: n_def[symmetric] max_def)
  qed
qed


lemma sweepClock_other: "\<forall>t. ev \<noteq> Sweep t \<Longrightarrow> sweepClock T ev = T"
  by (cases ev) simp_all

lemma step_accrued:
  assumes d1: "distinct (map emi_id (emis d))" and d2: "distinct (map loan_id (loans d))"
    and inv: "accruedInv lid T d" and adv: "T \<le> sweepClock T ev"
  shows "accruedInv lid (sweepClock T ev) (step hmac parse keySecret webhookSecret ev d)"
proof (cases "\<exists>t. ev = Sweep t")
  case True
  then obtain t where ev: "ev = Sweep t" by blast
  have le: "T \<le> setHours0 t" using adv by (simp add: ev)
  have emis': "emis (step hmac parse keySecret webhookSecret ev d) = map (sweep1 (setHours0 t)) (emis d)"
    by (simp add: ev sweep_db[OF d1])
  show ?thesis
    unfolding accruedInv_def emis'
  proof (intro ballI impI)
    fix e' assume e': "e' \<in> set (map (sweep1 (setHours0 t)) (emis d))"
      and h: "loanId e' = lid \<and> status e' \<noteq> Paid"
    from e' obtain e where e: "e \<in> set (emis d)" "e' = sweep1 (setHours0 t) e" by auto
    have u: "loanId e = lid" "status e \<noteq> Paid" using h by (simp_all add: e(2))
    then have "accruedFor (max 0 (daysOverdueOf T e)) e" using inv e(1) by (simp add: accruedInv_def)
    from sweep1_accrued[OF this le u(2)]
    show "accruedFor (max 0 (daysOverdueOf (sweepClock T ev) e')) e'"
      by (simp add: ev e(2))
  qed
next
  case False
  then have nos: "\<forall>t. ev \<noteq> Sweep t" by blast
  from step_settled[OF d1 d2 nos, of hmac parse keySecret webhookSecret]
  obtain L batch r now where "settled L batch r now d (step hmac parse keySecret webhookSecret ev d)"
    by blast
  then have emis': "emis (step hmac parse keySecret webhookSecret ev d)
      = map (\<lambda>x. if x \<in> set batch then paidEMI r now x else x) (emis d)"
    by (simp add: settled_def)
  show ?thesis
    unfolding accruedInv_def emis' sweepClock_other[OF nos]
  proof (intro ballI impI)
    fix e' assume e': "e' \<in> set (map (\<lambda>x. if x \<in> set batch then paidEMI r now x else x) (emis d))"
      and h: "loanId e' = lid \<and> status e' \<noteq> Paid"
    from e' obtain e where e: "e \<in> set (emis d)"
      "e' = (if e \<in> set batch then paidEMI r now e else e)" by auto
    have "e \<notin> set batch" using h e(2) by (auto simp: paidEMI_def)
    then have "e' = e" using e(2) by simp
    then show "accruedFor (max 0 (daysOverdueOf T e')) e'"
      using inv e(1) h by (simp add: accruedInv_def)
  qed
qed

lemma run_accrued:
  "ledgerInv lid A N d \<Longrightarrow> accruedInv lid T d \<Longrightarrow> clockAdvances T evs
   \<Longrightarrow> accruedInv lid (lastSweep T evs) (run hmac parse keySecret webhookSecret evs d)"
proof (induction evs arbitrary: d T)
  case Nil
  then show ?case by simp
next
  case (Cons ev evs)
  have d1: "distinct (map emi_id (emis d))" and d2: "distinct (map loan_id (loans d))"
    using Cons.prems(1) by (simp_all add: ledgerInv_def)
  have adv: "T \<le> sweepClock T ev" and rest: "clockAdvances (sweepClock T ev) evs"
    using Cons.prems(3) by simp_all
  have l: "ledgerInv lid A N (step hmac parse keySecret webhookSecret ev d)"
    by (rule step_invariants(1)[OF Cons.prems(1)])
  have a: "accruedInv lid (sweepClock T ev) (step hmac parse keySecret webhookSecret ev d)"
    by (rule step_accrued[OF d1 d2 Cons.prems(2) adv])
  show ?case using Cons.IH[OF l a rest] by simp
qed

lemma approve_fresh:
  assumes ok: "approve now newId lid amountB totalDaysB d = (Ok, d0)"
    and pend: "pendingApplication lid d"
  shows "\<forall>e\<in>set (emis d0). loanId e = lid
           \<longrightarrow> penaltyAmount e = 0 \<and> status e = Pending \<and> setHours0 now < dueDate e"
proof -
  from approve_Ok[OF ok] obtain lo changed where
    d0: "d0 = snd (generateEMISchedule now newId changed
                (lo\<lparr>amount := (case amountB of Num a \<Rightarrow> a | _ \<Rightarrow> amount lo),
                    totalDays := (case totalDaysB of Num n \<Rightarrow> n | _ \<Rightarrow> totalDays lo),
                    loanStatus := Approved, interestRate := 20\<rparr>) d)"
    by blast
  have none: "\<forall>e\<in>set (emis d). loanId e \<noteq> lid"
    using pend by (simp add: pendingApplication_def)
  have due: "setHours0 now < addDays (setHours0 (addDays now 1)) (day - 1)" if "1 \<le> day" for day
  proof -
    have "0 \<le> (day - 1) * msPerDay" using that by (simp add: msPerDay_def)
    moreover have "setHours0 (addDays now 1) = setHours0 now + msPerDay"
      by (simp add: setHours0_def addDays_def)
    ultimately show ?thesis
      unfolding addDays_def by (simp add: msPerDay_def)
  qed
  show ?thesis
    unfolding d0 generateEMISchedule_emis using none due by auto
qed

lemma approve_accrued:
  assumes ok: "approve now newId lid amountB totalDaysB d = (Ok, d0)"
    and pend: "pendingApplication lid d"
    and inv: "ledgerInv lid A N d0" and A: "0 < A" and N: "1 \<le> N"
  shows "accruedInv lid (setHours0 now) d0"
  unfolding accruedInv_def
proof (intro ballI impI)
  fix e assume e: "e \<in> set (emis d0)" and h: "loanId e = lid \<and> status e \<noteq> Paid"
  from approve_fresh[OF ok pend] e h
  have f: "penaltyAmount e = 0" "status e = Pending" "setHours0 now < dueDate e" by auto
  from inv e h have i: "interestAmount e = of_int \<lceil>(of_int A * 20 / 100 :: rat) / of_int N\<rceil>"
    and t: "totalAmount e = principalAmount e + interestAmount e + penaltyAmount e"
    by (auto simp: ledgerInv_def)
  have "(0::rat) < of_int A * 20 / 100 / of_int N" using A N by simp
  then have ipos: "0 < interestAmount e" unfolding i by simp
  have "daysOverdueOf (setHours0 now) e \<le> 0"
    using daysOverdueOf_not_due[of "setHours0 now" e] f(3) by simp
  then have "max 0 (daysOverdueOf (setHours0 now) e) = 0" by simp
  then show "accruedFor (max 0 (daysOverdueOf (setHours0 now) e)) e"
    using ipos f t by (simp add: accruedFor_def)
qed


lemma accrued_on_lifecycle:
  assumes ok: "approve now0 newId lid amountB totalDaysB d = (Ok, d0)"
    and dl: "distinct (map loan_id (loans d))" and de: "distinct (map emi_id (emis d0))"
    and pend: "pendingApplication lid d"
    and lo0: "Loan_findById lid d0 = Some lo0" and A: "0 < amount lo0" and N1: "1 \<le> totalDays lo0"
    and adv: "clockAdvances (setHours0 now0) evs"
    and d1: "d1 = run hmac parse keySecret webhookSecret evs d0"
    and e: "e \<in> set (emis d1)" "loanId e = lid" "status e \<noteq> Paid"
    and le: "lastSweep (setHours0 now0) evs \<le> setHours0 now"
  shows "distinct (map emi_id (emis d1)) \<and> distinct (map loan_id (loans d1))
       \<and> (\<exists>k. accruedFor k e \<and> k \<le> max 0 (daysOverdueOf (setHours0 now) e))"
proof -
  have i0: "ledgerInv lid (amount lo0) (totalDays lo0) d0"
    by (rule approve_establishes(1)[OF ok dl de pend lo0 N1])
  have a0: "accruedInv lid (setHours0 now0) d0"
    by (rule approve_accrued[OF ok pend i0 A N1])
  have i1: "ledgerInv lid (amount lo0) (totalDays lo0) d1"
    unfolding d1 by (rule run_ledgerInv[OF i0])
  have a1: "accruedInv lid (lastSweep (setHours0 now0) evs) d1"
    unfolding d1 by (rule run_accrued[OF i0 a0 adv])
  have "accruedFor (max 0 (daysOverdueOf (lastSweep (setHours0 now0) evs) e)) e"
    using a1 e by (simp add: accruedInv_def)
  moreover have "max 0 (daysOverdueOf (lastSweep (setHours0 now0) evs) e)
                  \<le> max 0 (daysOverdueOf (setHours0 now) e)"
    using daysOverdueOf_mono[OF le, of e] by simp
  ultimately have "\<exists>k. accruedFor k e \<and> k \<le> max 0 (daysOverdueOf (setHours0 now) e)" by blast
  then show ?thesis using i1 by (simp add: ledgerInv_def)
qed

lemma ceil_mult_bounds:
  fixes x :: rat
  assumes "1 \<le> N"
  shows "x \<le> of_int N * of_int \<lceil>x / of_int N\<rceil>"
    and "of_int N * of_int \<lceil>x / of_int N\<rceil> < x + of_int N"
    and "\<not> whole (x / of_int N) \<Longrightarrow> x < of_int N * of_int \<lceil>x / of_int N\<rceil>"
    and "whole x \<Longrightarrow> of_int N * of_int \<lceil>x / of_int N\<rceil> \<le> x + of_int N - 1"
proof -
  have N: "(0::rat) < of_int N" using assms by simp
  have "x / of_int N \<le> of_int \<lceil>x / of_int N\<rceil>" by (rule le_of_int_ceiling)
  with N have "x \<le> of_int \<lceil>x / of_int N\<rceil> * of_int N" by (simp only: pos_divide_le_eq)
  then show 1: "x \<le> of_int N * of_int \<lceil>x / of_int N\<rceil>" by (simp add: mult.commute)
  have "of_int \<lceil>x / of_int N\<rceil> < x / of_int N + 1"
    using ceiling_correct[of "x / of_int N"] by linarith
  then have "of_int \<lceil>x / of_int N\<rceil> * of_int N < (x / of_int N + 1) * of_int N"
    using N by (simp only: mult_less_cancel_right_pos)
  moreover have "(x / of_int N + 1) * of_int N = x + of_int N"
    using N by (simp add: distrib_right)
  ultimately show "of_int N * of_int \<lceil>x / of_int N\<rceil> < x + of_int N"
    by (simp only: mult.commute)
  show "x < of_int N * of_int \<lceil>x / of_int N\<rceil>" if "\<not> whole (x / of_int N)"
  proof -
    have "of_int \<lceil>x / of_int N\<rceil> \<noteq> x / of_int N"
    proof
      assume e: "of_int \<lceil>x / of_int N\<rceil> = x / of_int N"
      then have "\<lfloor>x / of_int N\<rfloor> = \<lceil>x / of_int N\<rceil>" by (metis floor_of_int)
      with e that show False by (simp add: whole_def)
    qed
    then have "x / of_int N < of_int \<lceil>x / of_int N\<rceil>"
      by (metis le_of_int_ceiling le_neq_trans)
    with N have "x < of_int \<lceil>x / of_int N\<rceil> * of_int N" by (simp only: pos_divide_less_eq)
    then show ?thesis by (simp add: mult.commute)
  qed
  show "of_int N * of_int \<lceil>x / of_int N\<rceil> \<le> x + of_int N - 1" if "whole x"
  proof -
    have c: "of_int \<lceil>x\<rceil> = x" using that by (metis whole_def ceiling_of_int)
    show ?thesis using ceil_sum_bounds(2)[OF assms, of x] unfolding c .
  qed
qed

lemma sum_total_penalty:
  fixes c :: rat
  assumes "\<forall>e\<in>set xs. totalAmount e = c + penaltyAmount e"
  shows "sum_list (map totalAmount xs) = of_nat (length xs) * c + sum_list (map penaltyAmount xs)"
  using assms by (induction xs) (simp_all add: algebra_simps)

lemma sum_due_const:
  fixes c :: rat
  assumes "\<forall>e\<in>set xs. principalAmount e + interestAmount e = c"
  shows "(\<Sum>e\<leftarrow>xs. principalAmount e + interestAmount e) = of_nat (length xs) * c"
  using assms by (induction xs) (simp_all add: algebra_simps)

lemma ledgerInv_totalSum:
  assumes "ledgerInv lid A N d" and "1 \<le> N"
  shows "totalSum lid d = of_int N * (of_int \<lceil>(of_int A :: rat) / of_int N\<rceil>
            + of_int \<lceil>(of_int A * 20 / 100 :: rat) / of_int N\<rceil>) + penaltySum lid d"
proof -
  define xs where "xs = filter (\<lambda>e. loanId e = lid) (emis d)"
  have len: "length xs = nat N" using assms(1) by (simp add: ledgerInv_def xs_def)
  have "\<forall>e\<in>set xs. totalAmount e = (of_int \<lceil>(of_int A :: rat) / of_int N\<rceil>
            + of_int \<lceil>(of_int A * 20 / 100 :: rat) / of_int N\<rceil>) + penaltyAmount e"
    using assms(1) by (auto simp: ledgerInv_def xs_def)
  from sum_total_penalty[OF this] show ?thesis
    using assms(2) by (simp add: totalSum_def penaltySum_def xs_def[symmetric] len)
qed

lemma ledgerInv_paidDue:
  assumes "ledgerInv lid A N d" and "1 \<le> N" and "countUnpaid lid d = 0"
  shows "paidDue lid d = of_int N * (of_int \<lceil>(of_int A :: rat) / of_int N\<rceil>
            + of_int \<lceil>(of_int A * 20 / 100 :: rat) / of_int N\<rceil>)"
proof -
  define xs where "xs = filter (\<lambda>e. loanId e = lid) (emis d)"
  have len: "length xs = nat N" using assms(1) by (simp add: ledgerInv_def xs_def)
  have "\<forall>e\<in>set (emis d). loanId e = lid \<longrightarrow> status e = Paid"
    using assms(3) by (auto simp: countUnpaid_def unpaidOf_def filter_empty_conv)
  then have "filter (\<lambda>e. loanId e = lid \<and> status e = Paid) (emis d) = xs"
    unfolding xs_def by (intro filter_cong) auto
  moreover have "\<forall>e\<in>set xs. principalAmount e + interestAmount e = (of_int \<lceil>(of_int A :: rat) / of_int N\<rceil>
            + of_int \<lceil>(of_int A * 20 / 100 :: rat) / of_int N\<rceil>)"
    using assms(1) by (auto simp: ledgerInv_def xs_def)
  ultimately show ?thesis
    using sum_due_const[of xs] assms(2) by (simp add: paidDue_def len)
qed

text \<open>
  Claim C2.  As stated (the installments' totals sum to amount + total interest + loan
  penalty) the claim fails right after generation, because both daily amounts are rounded
  up.  What holds at every state reached from an approved application by settlements and
  sweeps, in any order: the totals sum to
  totalDays * (ceil(amount/totalDays) + ceil(totalInterest/totalDays)) + loan penalty,
  with totalInterest = amount * interestRate/100; that is at least the claimed sum and
  exceeds it by less than 2 * totalDays.
\<close>

theorem installment_totals_conserved:
  assumes "approve now newId lid amountB totalDaysB d = (Ok, d0)"
    and "distinct (map loan_id (loans d))" and "distinct (map emi_id (emis d0))"
    and "pendingApplication lid d"
    and "Loan_findById lid d0 = Some lo0" and "1 \<le> totalDays lo0"
    and "d' = run hmac parse keySecret webhookSecret evs d0"
  shows "\<exists>lo. Loan_findById lid d' = Some lo \<and> amount lo = amount lo0
      \<and> totalDays lo = totalDays lo0 \<and> interestRate lo = 20
      \<and> totalSum lid d' =
          of_int (totalDays lo)
            * (of_int \<lceil>(of_int (amount lo) :: rat) / of_int (totalDays lo)\<rceil>
               + of_int \<lceil>(of_int (amount lo) * (interestRate lo / 100)) / of_int (totalDays lo)\<rceil>)
          + loanPenaltyAmount lo
      \<and> of_int (amount lo) + of_int (amount lo) * (interestRate lo / 100) + loanPenaltyAmount lo
          \<le> totalSum lid d'
      \<and> totalSum lid d' < of_int (amount lo) + of_int (amount lo) * (interestRate lo / 100)
          + loanPenaltyAmount lo + 2 * of_int (totalDays lo)"
proof -
  define A where "A = amount lo0"
  define N where "N = totalDays lo0"
  have N1: "1 \<le> N" using assms(6) by (simp add: N_def)
  have "ledgerInv lid A N d0"
    unfolding A_def N_def by (rule approve_establishes(1)[OF assms(1-6)])
  then have inv: "ledgerInv lid A N d'"
    unfolding assms(7) by (rule run_ledgerInv)
  then obtain lo where lo: "Loan_findById lid d' = Some lo" "amount lo = A" "totalDays lo = N"
    "interestRate lo = 20" "loanPenaltyAmount lo = penaltySum lid d'"
    unfolding ledgerInv_def by blast
  define TI :: rat where "TI = of_int A * (20 / 100)"
  have ts: "totalSum lid d' = of_int N * (of_int \<lceil>(of_int A :: rat) / of_int N\<rceil>
            + of_int \<lceil>TI / of_int N\<rceil>) + loanPenaltyAmount lo"
    using ledgerInv_totalSum[OF inv N1] by (simp add: lo(5) TI_def)
  note bA = ceil_mult_bounds(1,2)[OF N1, of "of_int A"]
  note bI = ceil_mult_bounds(1,2)[OF N1, of TI]
  have lower: "of_int A + TI + loanPenaltyAmount lo \<le> totalSum lid d'"
    using bA(1) bI(1) by (simp add: ts algebra_simps)
  have upper: "totalSum lid d' < of_int A + TI + loanPenaltyAmount lo + 2 * of_int N"
    using bA(2) bI(2) by (simp add: ts algebra_simps)
  show ?thesis
    using lo(1-4) ts lower upper
    by (intro exI[of _ lo]) (simp add: A_def N_def TI_def)
qed

text \<open>
  Claim C10.  When every installment of an approved loan has been settled, each exactly
  once (no repeated \<open>verify\<close> of a paid installment), the remaining balance is
  (amount + totalInterest) - totalDays * (ceil(amount/totalDays) +
  ceil(totalInterest/totalDays)); it is at most 0, negative as soon as totalDays fails to
  divide amount or totalInterest, and greater than -2 * totalDays.  The bound
  -2 * (totalDays - 1) of the claim holds when totalInterest is a whole number, not in
  general.
\<close>

theorem settled_loan_balance:
  assumes "approve now newId lid amountB totalDaysB d = (Ok, d0)"
    and "distinct (map loan_id (loans d))" and "distinct (map emi_id (emis d0))"
    and "pendingApplication lid d"
    and "Loan_findById lid d0 = Some lo0" and "1 \<le> totalDays lo0"
    and "settlesUnpaidRun hmac parse keySecret webhookSecret evs d0"
    and "d' = run hmac parse keySecret webhookSecret evs d0"
    and "countUnpaid lid d' = 0"
  shows "\<exists>lo. Loan_findById lid d' = Some lo \<and> amount lo = amount lo0
      \<and> totalDays lo = totalDays lo0 \<and> interestRate lo = 20
      \<and> remainingBalance lo =
          of_int (amount lo) + of_int (amount lo) * (interestRate lo / 100)
          - of_int (totalDays lo)
            * (of_int \<lceil>(of_int (amount lo) :: rat) / of_int (totalDays lo)\<rceil>
               + of_int \<lceil>(of_int (amount lo) * (interestRate lo / 100)) / of_int (totalDays lo)\<rceil>)
      \<and> remainingBalance lo \<le> 0
      \<and> (\<not> whole (of_int (amount lo) / of_int (totalDays lo))
          \<or> \<not> whole (of_int (amount lo) * (interestRate lo / 100) / of_int (totalDays lo))
          \<longrightarrow> remainingBalance lo < 0)
      \<and> - (2 * of_int (totalDays lo)) < remainingBalance lo
      \<and> (whole (of_int (amount lo) * (interestRate lo / 100))
          \<longrightarrow> - (2 * (of_int (totalDays lo) - 1)) \<le> remainingBalance lo)"
proof -
  define A where "A = amount lo0"
  define N where "N = totalDays lo0"
  have N1: "1 \<le> N" using assms(6) by (simp add: N_def)
  have i0: "ledgerInv lid A N d0" and b0: "balanceInv lid d0"
    unfolding A_def N_def by (rule approve_establishes[OF assms(1-6)])+
  have inv: "ledgerInv lid A N d'"
    unfolding assms(8) by (rule run_ledgerInv[OF i0])
  have bal: "balanceInv lid d'"
    unfolding assms(8) by (rule run_balanceInv[OF i0 b0 assms(7)])
  from inv obtain lo where lo: "Loan_findById lid d' = Some lo" "amount lo = A" "totalDays lo = N"
    "interestRate lo = 20"
    unfolding ledgerInv_def by blast
  define TI :: rat where "TI = of_int A * (20 / 100)"
  define dP :: rat where "dP = of_int \<lceil>(of_int A :: rat) / of_int N\<rceil>"
  define dI :: rat where "dI = of_int \<lceil>TI / of_int N\<rceil>"
  have pd: "paidDue lid d' = of_int N * (dP + dI)"
    using ledgerInv_paidDue[OF inv N1 assms(9)] by (simp add: TI_def dP_def dI_def)
  have rb: "remainingBalance lo = of_int A + TI - of_int N * (dP + dI)"
    using bal lo pd unfolding balanceInv_def by (simp add: TI_def)
  note bA = ceil_mult_bounds[OF N1, of "of_int A", folded dP_def]
  note bI = ceil_mult_bounds[OF N1, of TI, folded dI_def]
  have wA: "whole (of_int A)" by (simp add: whole_def)
  have c1: "remainingBalance lo \<le> 0"
    using bA(1) bI(1) by (simp add: rb algebra_simps)
  have c2: "\<not> whole (of_int A / of_int N) \<or> \<not> whole (TI / of_int N) \<longrightarrow> remainingBalance lo < 0"
    using bA(1,3) bI(1,3) by (auto simp: rb algebra_simps)
  have c3: "- (2 * of_int N) < remainingBalance lo"
    using bA(2) bI(2) by (simp add: rb algebra_simps)
  have c4: "whole TI \<longrightarrow> - (2 * (of_int N - 1)) \<le> remainingBalance lo"
    using bA(4)[OF wA] bI(4) by (auto simp: rb algebra_simps)
  show ?thesis
    using lo rb c1 c2 c3 c4
    by (intro exI[of _ lo]) (simp add: A_def N_def TI_def dP_def dI_def)
qed

lemma find_append_None:
  "find P xs = None \<Longrightarrow> find P (xs @ ys) = find P ys"
  by (induction xs) (auto split: if_splits)

lemma applyLoan_pending:
  assumes "applyLoan newLoanId uid amountB d = (Ok, d')"
    and "newLoanId \<notin> loan_id ` set (loans d)"
    and "\<forall>e\<in>set (emis d). loanId e \<noteq> newLoanId"
  shows "pendingApplication newLoanId d'"
proof -
  from assms(1) obtain a where d': "d' = d\<lparr>loans := loans d @
                  [Loan_preSave True
                     \<lparr>loan_id = newLoanId, loanUserId = uid, amount = a,
                      loanStatus = LoanPending, totalDays = 100, dailyEMI = 0,
                      dailyInterest = 0, interestRate = 20, totalPaid = 0,
                      remainingBalance = 0, loanPenaltyAmount = 0, approvedAt = None,
                      startDate = None, endDate = None, autopayEnabled = False,
                      razorpaySubscriptionId = None, autopayStatus = AutopayNone\<rparr>]\<rparr>"
    by (auto simp: applyLoan_def split: body_int.splits if_splits)
  have "find (\<lambda>l. loan_id l = newLoanId) (loans d) = None"
    using assms(2) by (auto simp: find_None_iff)
  then show ?thesis
    using assms(3)
    by (simp add: pendingApplication_def d' Loan_findById_def find_append_None
          Loan_preSave_balance)
qed

theorem installment_totals_conserved_witness:
  "Loan_findById 1 (run exHmac exParse ''secret'' ''whsecret'' exRun exDb) = Some exFinal
   \<and> totalSum 1 (run exHmac exParse ''secret'' ''whsecret'' exRun exDb) =
          of_int (totalDays exFinal)
            * (of_int \<lceil>(of_int (amount exFinal) :: rat) / of_int (totalDays exFinal)\<rceil>
               + of_int \<lceil>(of_int (amount exFinal) * (interestRate exFinal / 100))
                          / of_int (totalDays exFinal)\<rceil>)
          + loanPenaltyAmount exFinal
   \<and> of_int (amount exFinal) + of_int (amount exFinal) * (interestRate exFinal / 100)
        + loanPenaltyAmount exFinal
        \<le> totalSum 1 (run exHmac exParse ''secret'' ''whsecret'' exRun exDb)
   \<and> totalSum 1 (run exHmac exParse ''secret'' ''whsecret'' exRun exDb) = 1471
   \<and> (of_int (amount exFinal) + of_int (amount exFinal) * (interestRate exFinal / 100)
        + loanPenaltyAmount exFinal :: rat) = 1468"
proof -
  have h: "approve 0 exNewId 1 Absent (Num 3) exApplied = (Ok, exDb)"
      "distinct (map loan_id (loans exApplied))" "distinct (map emi_id (emis exDb))"
    by code_simp+
  have p: "pendingApplication 1 exApplied"
    by (simp add: pendingApplication_def exApplied_def exPending_def Loan_findById_def)
  have g: "Loan_findById 1 exDb = Some exLoan" "1 \<le> totalDays exLoan"
    by code_simp+
  have f: "Loan_findById 1 (run exHmac exParse ''secret'' ''whsecret'' exRun exDb) = Some exFinal"
    by code_simp
  have e: "totalSum 1 (run exHmac exParse ''secret'' ''whsecret'' exRun exDb) = 1471"
     "(of_int (amount exFinal) + of_int (amount exFinal) * (interestRate exFinal / 100)
        + loanPenaltyAmount exFinal :: rat) = 1468"
    by code_simp+
  from installment_totals_conserved[OF h p g refl, of exHmac exParse "''secret''" "''whsecret''" exRun]
  obtain lo where lo: "Loan_findById 1 (run exHmac exParse ''secret'' ''whsecret'' exRun exDb) = Some lo"
    "totalSum 1 (run exHmac exParse ''secret'' ''whsecret'' exRun exDb) =
          of_int (totalDays lo)
            * (of_int \<lceil>(of_int (amount lo) :: rat) / of_int (totalDays lo)\<rceil>
               + of_int \<lceil>(of_int (amount lo) * (interestRate lo / 100)) / of_int (totalDays lo)\<rceil>)
          + loanPenaltyAmount lo"
    "of_int (amount lo) + of_int (amount lo) * (interestRate lo / 100) + loanPenaltyAmount lo
          \<le> totalSum 1 (run exHmac exParse ''secret'' ''whsecret'' exRun exDb)"
    by blast
  from lo(1) f have "lo = exFinal" by simp
  with lo(2,3) f e show ?thesis by (intro conjI) simp_all
qed

text \<open>
  The claim as stated fails on the example loan: 1000 over 3 days gives three installments
  of 334 + 67, which sum to 1203, while amount + interest + penalty is 1200.
\<close>

theorem installment_totals_exceed_claimed_sum:
  "approve 0 exNewId 1 Absent (Num 3) exApplied = (Ok, exDb)
   \<and> Loan_findById 1 exDb = Some exLoan
   \<and> totalSum 1 exDb = 1203
   \<and> (of_int (amount exLoan) + of_int (amount exLoan) * (interestRate exLoan / 100)
        + loanPenaltyAmount exLoan :: rat) = 1200
   \<and> totalSum 1 exDb \<noteq> of_int (amount exLoan) + of_int (amount exLoan) * (interestRate exLoan / 100)
        + loanPenaltyAmount exLoan"
  by code_simp

theorem settled_loan_balance_witness:
  "Loan_findById 1 (run exHmac exParse ''secret'' ''whsecret'' exRun exDb) = Some exFinal
   \<and> countUnpaid 1 (run exHmac exParse ''secret'' ''whsecret'' exRun exDb) = 0
   \<and> remainingBalance exFinal =
          of_int (amount exFinal) + of_int (amount exFinal) * (interestRate exFinal / 100)
          - of_int (totalDays exFinal)
            * (of_int \<lceil>(of_int (amount exFinal) :: rat) / of_int (totalDays exFinal)\<rceil>
               + of_int \<lceil>(of_int (amount exFinal) * (interestRate exFinal / 100))
                          / of_int (totalDays exFinal)\<rceil>)
   \<and> remainingBalance exFinal \<le> 0
   \<and> remainingBalance exFinal < 0
   \<and> - (2 * of_int (totalDays exFinal)) < remainingBalance exFinal
   \<and> - (2 * (of_int (totalDays exFinal) - 1)) \<le> remainingBalance exFinal
   \<and> remainingBalance exFinal = - 3"
proof -
  have h: "approve 0 exNewId 1 Absent (Num 3) exApplied = (Ok, exDb)"
      "distinct (map loan_id (loans exApplied))" "distinct (map emi_id (emis exDb))"
    by code_simp+
  have p: "pendingApplication 1 exApplied"
    by (simp add: pendingApplication_def exApplied_def exPending_def Loan_findById_def)
  have g: "Loan_findById 1 exDb = Some exLoan" "1 \<le> totalDays exLoan"
      "settlesUnpaidRun exHmac exParse ''secret'' ''whsecret'' exRun exDb"
    by code_simp+
  have c: "countUnpaid 1 (run exHmac exParse ''secret'' ''whsecret'' exRun exDb) = 0"
    by code_simp
  have f: "Loan_findById 1 (run exHmac exParse ''secret'' ''whsecret'' exRun exDb) = Some exFinal"
    by code_simp
  have w: "\<not> whole (of_int (amount exFinal) / of_int (totalDays exFinal))"
      "whole (of_int (amount exFinal) * (interestRate exFinal / 100))"
      "remainingBalance exFinal = - 3"
    by code_simp+
  from settled_loan_balance[OF h p g refl c]
  obtain lo where lo: "Loan_findById 1 (run exHmac exParse ''secret'' ''whsecret'' exRun exDb) = Some lo"
    "remainingBalance lo =
          of_int (amount lo) + of_int (amount lo) * (interestRate lo / 100)
          - of_int (totalDays lo)
            * (of_int \<lceil>(of_int (amount lo) :: rat) / of_int (totalDays lo)\<rceil>
               + of_int \<lceil>(of_int (amount lo) * (interestRate lo / 100)) / of_int (totalDays lo)\<rceil>)"
    "remainingBalance lo \<le> 0"
    "\<not> whole (of_int (amount lo) / of_int (totalDays lo))
          \<or> \<not> whole (of_int (amount lo) * (interestRate lo / 100) / of_int (totalDays lo))
          \<longrightarrow> remainingBalance lo < 0"
    "- (2 * of_int (totalDays lo)) < remainingBalance lo"
    "whole (of_int (amount lo) * (interestRate lo / 100))
          \<longrightarrow> - (2 * (of_int (totalDays lo) - 1)) \<le> remainingBalance lo"
    by blast
  from lo(1) f have eq: "lo = exFinal" by simp
  from lo(4) w(1) have neg: "remainingBalance exFinal < 0" unfolding eq by blast
  from lo(6) w(2) have low: "- (2 * (of_int (totalDays exFinal) - 1)) \<le> remainingBalance exFinal"
    unfolding eq by blast
  from f c lo(2,3,5) neg low w(3) show ?thesis unfolding eq by (intro conjI)
qed

text \<open>
  The bound of the claim fails for a loan of 1001 over 2 days: the interest 200.2 is not
  whole, the installments are 501 + 101, and the balance ends at -2.8, below -2.
\<close>

theorem settled_balance_below_claimed_bound:
  "settlesUnpaidRun exHmac exParse ''secret'' ''whsecret'' exRun1001 exDb1001
   \<and> countUnpaid 1 (run exHmac exParse ''secret'' ''whsecret'' exRun1001 exDb1001) = 0
   \<and> map amount (loans (run exHmac exParse ''secret'' ''whsecret'' exRun1001 exDb1001)) = [1001]
   \<and> map totalDays (loans (run exHmac exParse ''secret'' ''whsecret'' exRun1001 exDb1001)) = [2]
   \<and> map remainingBalance (loans (run exHmac exParse ''secret'' ''whsecret'' exRun1001 exDb1001))
       = [- (14 / 5)]
   \<and> \<not> (- (2 * (2 - 1)) \<le> (- (14 / 5) :: rat))"
  by code_simp

end
